theory Spec2Isabelle
  imports Main "HOL-Library.AList" "HOL-Library.List_Lexorder" "HOL-Library.Multiset"
begin

section \<open>The story store of the preview API\<close>

text \<open>
  A shallow embedding of the class \<open>StoryStore\<close> of
  \<^verbatim>\<open>code/lib/preview-api/src/modules/store/StoryStore.ts\<close>.

  The class mutates its fields, so every method becomes a function that takes the store and
  returns the updated store together with its result. A \<^verbatim>\<open>throw\<close> (or a rejected
  promise) is the left injection of the result; the store that is returned with it holds
  the mutations made before the throw, as in JavaScript.
\<close>

subsection \<open>JavaScript values\<close>

type_synonym StoryId = string
type_synonym Path = string
type_synonym ComponentTitle = string

text \<open>The identity of an object: two references denote the same object iff they are equal.\<close>

type_synonym oid = nat

datatype jsval =
    JUndefined
  | JNull
  | JBool bool
  | JNum int
  | JStr string
  | JFun oid
  | JArr "jsval list"
  | JObj "(string \<times> jsval) list"

text \<open>\<^verbatim>\<open>typeof value === 'function'\<close> and the truthiness of a value.\<close>

fun is_function :: "jsval \<Rightarrow> bool" where
  "is_function (JFun f) = True"
| "is_function v = False"

fun truthy :: "jsval \<Rightarrow> bool" where
  "truthy JUndefined = False"
| "truthy JNull = False"
| "truthy (JBool b) = b"
| "truthy (JNum n) = (n \<noteq> 0)"
| "truthy (JStr s) = (s \<noteq> [])"
| "truthy (JFun f) = True"
| "truthy (JArr xs) = True"
| "truthy (JObj ps) = True"

text \<open>Reading a property of an object: a missing property reads as \<open>undefined\<close>.\<close>

definition get_prop :: "(string \<times> jsval) list \<Rightarrow> string \<Rightarrow> jsval" where
  "get_prop ps k = (case map_of ps k of None \<Rightarrow> JUndefined | Some v \<Rightarrow> v)"

text \<open>
  A plain object whose identity the store compares (module exports and the three kinds of
  annotations). The memoised transforms are keyed by \<open>oid\<close>, not by the properties.
\<close>

record JSObject =
  oid :: oid
  props :: "(string \<times> jsval) list"

type_synonym ModuleExports = JSObject
type_synonym StoryAnnotations = JSObject
type_synonym ComponentAnnotations = JSObject
type_synonym NormalizedProjectAnnotations = JSObject

subsection \<open>Errors and promises\<close>

datatype error =
    CalledExtractOnStoreError
  | MissingStoryFromCsfFileError StoryId
  | EntryNotFound StoryId
  | LoaderFailure string
  | TypeError
  | Error string

text \<open>
  A promise that settles: \<open>settledAt\<close> is the position of its settlement in the order of
  events of the run, \<open>outcome\<close> is the rejection (\<open>Inl\<close>) or the value (\<open>Inr\<close>).
  Promises with equal \<open>settledAt\<close> are taken in the order of their creation.
  Promises that never settle are not modelled.
\<close>

record 'a promise =
  settledAt :: nat
  outcome :: "error + 'a"

text \<open>\<^verbatim>\<open>p.then(f)\<close> for a function \<open>f\<close> that does not throw.\<close>

definition then_promise :: "'a promise \<Rightarrow> ('a \<Rightarrow> 'b) \<Rightarrow> 'b promise" where
  "then_promise p f =
     \<lparr>settledAt = settledAt p,
      outcome = (case outcome p of Inl e \<Rightarrow> Inl e | Inr v \<Rightarrow> Inr (f v))\<rparr>"

text \<open>
  \<^verbatim>\<open>Promise.all(ps)\<close>: rejected with the reason of the promise that rejects first,
  otherwise fulfilled with the values in the order of the list.
\<close>

definition rejections :: "'a promise list \<Rightarrow> (nat \<times> error) list" where
  "rejections ps = [(settledAt p, e). p \<leftarrow> ps, e \<leftarrow> (case outcome p of Inl e \<Rightarrow> [e] | Inr v \<Rightarrow> [])]"

definition fulfilments :: "'a promise list \<Rightarrow> 'a list" where
  "fulfilments ps = [v. p \<leftarrow> ps, v \<leftarrow> (case outcome p of Inl e \<Rightarrow> [] | Inr v \<Rightarrow> [v])]"

definition Promise_all :: "'a promise list \<Rightarrow> 'a list promise" where
  "Promise_all ps =
     (case sort_key fst (rejections ps) of
        (t, e) # rest \<Rightarrow> \<lparr>settledAt = t, outcome = Inl e\<rparr>
      | [] \<Rightarrow> \<lparr>settledAt = fold max (map settledAt ps) 0, outcome = Inr (fulfilments ps)\<rparr>)"

subsection \<open>The index\<close>

datatype entry_type = story | docs

record IndexEntry =
  type :: entry_type
  importPath :: Path
  title :: ComponentTitle

text \<open>
  \<open>storyIndex.entries\<close>, in the order of \<^verbatim>\<open>Object.entries\<close>. A JavaScript object has each
  key once: the theorems that need it assume \<open>distinct (map fst entries)\<close>. Objects
  that are used as dictionaries (the index, \<open>importPaths\<close>, the materialized map, the
  stories of a file record, the registry of hooks) are read as their own properties only:
  story identifiers have the form \<open>kind--name\<close> and paths are file paths, so no key is the
  name of a property that every object inherits.
\<close>

type_synonym StoryIndex = "(StoryId \<times> IndexEntry) list"

text \<open>
  Modelled from the spec: \<open>StoryIndexStore.storyIdToEntry\<close> is not part of the source
  file. "Returns the Index Entry for \<open>id\<close>; fails with EntryNotFound if absent."
\<close>

definition storyIdToEntry :: "StoryIndex \<Rightarrow> StoryId \<Rightarrow> error + IndexEntry" where
  "storyIdToEntry entries storyId =
     (case map_of entries storyId of
        None \<Rightarrow> Inl (EntryNotFound storyId)
      | Some entry \<Rightarrow> Inr entry)"

subsection \<open>File records, resolved stories, hook handles\<close>

record CSFFile =
  meta :: ComponentAnnotations
  stories :: "(StoryId \<times> StoryAnnotations) list"
  moduleExports :: ModuleExports

text \<open>
  A resolved story. \<open>story_oid\<close> is the identity of the instance. The properties that the
  store reads are fields of the record; \<open>otherFields\<close> holds the remaining own properties
  (name, title, tags, moduleExport, the callables, ...).
\<close>

record PreparedStory =
  story_oid :: oid
  id' :: StoryId
  parameters :: "(string \<times> jsval) list"
  initialArgs :: "(string \<times> jsval) list"
  otherFields :: "(string \<times> jsval) list"

text \<open>\<^verbatim>\<open>Object.entries(story)\<close>.\<close>

definition story_entries :: "PreparedStory \<Rightarrow> (string \<times> jsval) list" where
  "story_entries st =
     (''id'', JStr (id' st)) # (''parameters'', JObj (parameters st))
       # (''initialArgs'', JObj (initialArgs st)) # otherFields st"

text \<open>
  Modelled from the spec: the class \<open>HooksContext\<close> is not part of the source file. A
  Hook Handle is "one lifecycle object per story identifier, created on first use,
  exposing a cleanup operation". \<open>hc_oid\<close> is the identity of the handle, \<open>cleanCalls\<close>
  counts the invocations of \<open>clean()\<close> it has received.
\<close>

record HooksContext =
  hc_oid :: oid
  cleanCalls :: nat

definition new_HooksContext :: "oid \<Rightarrow> HooksContext" where
  "new_HooksContext fresh = \<lparr>hc_oid = fresh, cleanCalls = 0\<rparr>"

definition clean :: "HooksContext \<Rightarrow> HooksContext" where
  "clean h = h\<lparr>cleanCalls := Suc (cleanCalls h)\<rparr>"

subsection \<open>The transforms imported from ./csf and the runtime\<close>

text \<open>
  The pure transforms are not part of the source file; they are parameters of the model,
  and so are the constructor and the method \<open>set\<close> of the class \<open>GlobalsStore\<close>, which
  read \<open>globals\<close> and \<open>globalTypes\<close> from the project annotations they are given.
  \<open>ToString\<close> is the conversion that \<^verbatim>\<open>Array.prototype.sort\<close> compares by, as a list of
  UTF-16 code units.
\<close>

type_synonym GlobalsStore = "(string \<times> jsval) list"

record Externals =
  processCSFFile :: "ModuleExports \<Rightarrow> Path \<Rightarrow> ComponentTitle \<Rightarrow> CSFFile"
  prepareStory ::
    "StoryAnnotations \<Rightarrow> ComponentAnnotations \<Rightarrow> NormalizedProjectAnnotations \<Rightarrow> PreparedStory"
  normalizeProjectAnnotations :: "JSObject \<Rightarrow> NormalizedProjectAnnotations"
  new_GlobalsStore :: "JSObject \<Rightarrow> GlobalsStore"
  GlobalsStore_set :: "GlobalsStore \<Rightarrow> JSObject \<Rightarrow> GlobalsStore"
  ToString :: "jsval \<Rightarrow> nat list"

subsection \<open>The argument store\<close>

type_synonym ArgsStore = "StoryId \<rightharpoonup> (string \<times> jsval) list"

text \<open>
  Modelled from the spec: the class \<open>ArgsStore\<close> is not part of the source file.
  \<open>setInitial\<close> "seeds the argument store with the resolved story's initial defaults if
  no value exists yet".
\<close>

definition setInitial :: "ArgsStore \<Rightarrow> PreparedStory \<Rightarrow> ArgsStore" where
  "setInitial a st =
     (case a (id' st) of
        None \<Rightarrow> a(id' st \<mapsto> initialArgs st)
      | Some v \<Rightarrow> a)"

subsection \<open>The store\<close>

definition STORY_CACHE_SIZE :: nat where
  "STORY_CACHE_SIZE = 10000"

type_synonym story_key = "oid \<times> oid \<times> oid"

record StoryStore =
  storyIndex :: StoryIndex
  importFn :: "Path \<Rightarrow> ModuleExports promise"
  projectAnnotations :: NormalizedProjectAnnotations
  globals :: GlobalsStore
  args :: ArgsStore
  hooks :: "StoryId \<rightharpoonup> HooksContext"
  cachedCSFFiles :: "(Path \<times> CSFFile) list option"
  prepareStoryCache :: "(story_key \<times> PreparedStory) list"
  next_oid :: oid

text \<open>
  The constructor. \<open>next_oid\<close> is the allocation counter for the objects that the store
  creates (resolved stories and hook handles).
\<close>

definition new_StoryStore ::
  "Externals \<Rightarrow> StoryIndex \<Rightarrow> (Path \<Rightarrow> ModuleExports promise) \<Rightarrow> JSObject \<Rightarrow> StoryStore" where
  "new_StoryStore ext index imp pa =
     \<lparr>storyIndex = index,
      importFn = imp,
      projectAnnotations = normalizeProjectAnnotations ext pa,
      globals = new_GlobalsStore ext pa,
      args = Map.empty,
      hooks = Map.empty,
      cachedCSFFiles = None,
      prepareStoryCache = [],
      next_oid = 0\<rparr>"

text \<open>
  \<open>setProjectAnnotations\<close>: the new annotations are a new object, so the entries of the
  story cache that were made with the old ones are no longer found.
\<close>

definition setProjectAnnotations :: "Externals \<Rightarrow> StoryStore \<Rightarrow> JSObject \<Rightarrow> StoryStore" where
  "setProjectAnnotations ext s pa =
     s\<lparr>projectAnnotations := normalizeProjectAnnotations ext pa,
       globals := GlobalsStore_set ext (globals s) pa\<rparr>"

text \<open>
  Modelled from the spec: \<open>memoize\<close> (the package memoizerific) is not part of the source
  file. The wrappers are "bounded LRU-memoized pure-function wrappers", "keyed by the
  identity of their input objects". The cache is a list, most recently used first. On a
  hit the cached instance is returned; on a miss the transform runs, its result is a new
  object, and the least recently used entry is dropped when the capacity is exceeded.
\<close>

definition prepareStoryWithCache ::
  "Externals \<Rightarrow> StoryStore \<Rightarrow> StoryAnnotations \<Rightarrow> ComponentAnnotations
     \<Rightarrow> NormalizedProjectAnnotations \<Rightarrow> PreparedStory \<times> StoryStore" where
  "prepareStoryWithCache ext s sa ca pa =
     (let key = (oid sa, oid ca, oid pa) in
      case map_of (prepareStoryCache s) key of
        Some st \<Rightarrow>
          (st, s\<lparr>prepareStoryCache := (key, st) # AList.delete key (prepareStoryCache s)\<rparr>)
      | None \<Rightarrow>
          (let st = (prepareStory ext sa ca pa)\<lparr>story_oid := next_oid s\<rparr> in
           (st, s\<lparr>prepareStoryCache := take STORY_CACHE_SIZE ((key, st) # prepareStoryCache s),
                  next_oid := Suc (next_oid s)\<rparr>)))"

text \<open>
  \<open>processCSFFileWithCache\<close> is \<open>memoize(CSF_CACHE_SIZE)(processCSFFile)\<close>. Its cache is
  not part of the modelled state: \<open>processCSFFile\<close> is a parameter that returns the
  annotations together with their identities, so that processing the same module, path
  and title again gives the same file record, as the source does while the entry is in
  that cache. No property below depends on an eviction from it.
\<close>

definition processCSFFileWithCache ::
  "Externals \<Rightarrow> ModuleExports \<Rightarrow> Path \<Rightarrow> ComponentTitle \<Rightarrow> CSFFile" where
  "processCSFFileWithCache ext exports path t = processCSFFile ext exports path t"

subsection \<open>Loading\<close>

text \<open>
  \<open>loadCSFFileByStoryId\<close>: the lookup in the index runs at the call, a failure there
  rejects the promise at once; otherwise the promise settles after the loader's.
\<close>

definition loadCSFFileByStoryId :: "Externals \<Rightarrow> StoryStore \<Rightarrow> StoryId \<Rightarrow> CSFFile promise" where
  "loadCSFFileByStoryId ext s storyId =
     (case storyIdToEntry (storyIndex s) storyId of
        Inl e \<Rightarrow> \<lparr>settledAt = 0, outcome = Inl e\<rparr>
      | Inr entry \<Rightarrow>
          (let p = importFn s (importPath entry) in
           \<lparr>settledAt = Suc (settledAt p),
            outcome =
              (case outcome p of
                 Inl e \<Rightarrow> Inl e
               | Inr exports \<Rightarrow>
                   Inr (processCSFFileWithCache ext exports (importPath entry) (title entry)))\<rparr>))"

text \<open>
  The first statement of \<open>loadAllCSFFiles\<close>: \<^verbatim>\<open>importPaths[importPath] = storyId\<close> for every
  entry. An assignment to an existing key keeps the key's position and replaces the value;
  a new key goes last (paths are not integer-like keys).
\<close>

definition importPaths_of :: "StoryIndex \<Rightarrow> (Path \<times> StoryId) list" where
  "importPaths_of entries =
     fold (\<lambda>(storyId, entry) importPaths. AList.update (importPath entry) storyId importPaths)
       entries []"

definition csfFilePromiseList ::
  "Externals \<Rightarrow> StoryStore \<Rightarrow> (Path \<times> CSFFile) promise list" where
  "csfFilePromiseList ext s =
     map (\<lambda>(path, storyId).
            then_promise (loadCSFFileByStoryId ext s storyId) (\<lambda>csfFile. (path, csfFile)))
       (importPaths_of (storyIndex s))"

definition loadAllCSFFiles ::
  "Externals \<Rightarrow> StoryStore \<Rightarrow> (Path \<times> CSFFile) list promise" where
  "loadAllCSFFiles ext s =
     then_promise (Promise_all (csfFilePromiseList ext s))
       (\<lambda>list. fold (\<lambda>(path, csfFile) acc. AList.update path csfFile acc) list [])"

text \<open>
  An asynchronous method runs up to its \<^verbatim>\<open>await\<close> on the store as it is at the call, and
  the rest on the store as it is when the awaited promise settles: other calls may have
  run in between. The model of such a method takes both stores, \<open>s\<close> at the call and \<open>s'\<close>
  at the resumption; \<open>s'\<close> is \<open>s\<close> when nothing else runs during the \<^verbatim>\<open>await\<close>.

  \<open>cacheAllCSFFiles\<close>: the index and the loader are read at the call; the assignment runs
  at the resumption, and only when the awaited promise is fulfilled.
\<close>

definition cacheAllCSFFiles ::
  "Externals \<Rightarrow> StoryStore \<Rightarrow> StoryStore \<Rightarrow> (error + unit) \<times> StoryStore" where
  "cacheAllCSFFiles ext s s' =
     (case outcome (loadAllCSFFiles ext s) of
        Inl e \<Rightarrow> (Inl e, s')
      | Inr files \<Rightarrow> (Inr (), s'\<lparr>cachedCSFFiles := Some files\<rparr>))"

text \<open>
  \<open>onStoriesChanged\<close>: the assignments and the test of \<open>cachedCSFFiles\<close> run at the call.
  Without a materialized map the method is done there. With one, it awaits
  \<open>cacheAllCSFFiles\<close>, called on the store after the assignments (\<open>s2\<close>); \<open>s'\<close> is the store
  at the resumption, which is \<open>s2\<close> when nothing else runs during the \<^verbatim>\<open>await\<close>.
\<close>

definition onStoriesChanged ::
  "Externals \<Rightarrow> StoryStore \<Rightarrow> (Path \<Rightarrow> ModuleExports promise) option \<Rightarrow> StoryIndex option
     \<Rightarrow> StoryStore \<Rightarrow> (error + unit) \<times> StoryStore" where
  "onStoriesChanged ext s importFn_arg storyIndex_arg s' =
     (let s1 = (case importFn_arg of None \<Rightarrow> s | Some f \<Rightarrow> s\<lparr>importFn := f\<rparr>);
          s2 = (case storyIndex_arg of None \<Rightarrow> s1 | Some entries \<Rightarrow> s1\<lparr>storyIndex := entries\<rparr>)
      in case cachedCSFFiles s2 of
           Some files \<Rightarrow> cacheAllCSFFiles ext s2 s'
         | None \<Rightarrow> (Inr (), s2))"

subsection \<open>Resolving stories\<close>

definition ensure_hooks :: "StoryStore \<Rightarrow> StoryId \<Rightarrow> StoryStore" where
  "ensure_hooks s i =
     (case hooks s i of
        Some h \<Rightarrow> s\<lparr>hooks := (hooks s)(i \<mapsto> h)\<rparr>
      | None \<Rightarrow> s\<lparr>hooks := (hooks s)(i \<mapsto> new_HooksContext (next_oid s)),
                  next_oid := Suc (next_oid s)\<rparr>)"

definition storyFromCSFFile ::
  "Externals \<Rightarrow> StoryStore \<Rightarrow> StoryId \<Rightarrow> CSFFile \<Rightarrow> (error + PreparedStory) \<times> StoryStore" where
  "storyFromCSFFile ext s storyId csfFile =
     (case map_of (stories csfFile) storyId of
        None \<Rightarrow> (Inl (MissingStoryFromCsfFileError storyId), s)
      | Some storyAnnotations \<Rightarrow>
          (let componentAnnotations = meta csfFile;
               (st, s1) = prepareStoryWithCache ext s storyAnnotations componentAnnotations
                            (projectAnnotations s);
               s2 = s1\<lparr>args := setInitial (args s1) st\<rparr>;
               s3 = ensure_hooks s2 (id' st)
           in (Inr st, s3)))"

text \<open>
  \<open>loadStory\<close>: the file record is loaded from the store at the call, the story is
  resolved on the store at the resumption.
\<close>

definition loadStory ::
  "Externals \<Rightarrow> StoryStore \<Rightarrow> StoryId \<Rightarrow> StoryStore \<Rightarrow> (error + PreparedStory) \<times> StoryStore" where
  "loadStory ext s storyId s' =
     (case outcome (loadCSFFileByStoryId ext s storyId) of
        Inl e \<Rightarrow> (Inl e, s')
      | Inr csfFile \<Rightarrow> storyFromCSFFile ext s' storyId csfFile)"

text \<open>
  \<open>cleanupStory\<close>: \<^verbatim>\<open>this.hooks[story.id].clean()\<close>; the call on \<open>undefined\<close> is a
  \<open>TypeError\<close>.
\<close>

definition cleanupStory :: "StoryStore \<Rightarrow> PreparedStory \<Rightarrow> (error + unit) \<times> StoryStore" where
  "cleanupStory s st =
     (case hooks s (id' st) of
        None \<Rightarrow> (Inl TypeError, s)
      | Some h \<Rightarrow> (Inr (), s\<lparr>hooks := (hooks s)(id' st \<mapsto> clean h)\<rparr>))"

subsection \<open>Extraction\<close>

text \<open>
  \<^verbatim>\<open>value.slice().sort()\<close>: a copy, sorted by the default comparison: \<open>undefined\<close> goes
  last, the other elements are ordered by their \<open>ToString\<close>, and the sort is stable.
\<close>

definition js_sort :: "Externals \<Rightarrow> jsval list \<Rightarrow> jsval list" where
  "js_sort ext xs =
     sort_key (ToString ext) (filter (\<lambda>v. v \<noteq> JUndefined) xs) @ filter (\<lambda>v. v = JUndefined) xs"

text \<open>The inner \<open>reduce\<close> of \<open>extract\<close>, over the entries of the story.\<close>

fun extract_fields ::
  "Externals \<Rightarrow> (string \<times> jsval) list \<Rightarrow> (string \<times> jsval) list \<Rightarrow> (string \<times> jsval) list" where
  "extract_fields ext [] storyAcc = storyAcc"
| "extract_fields ext ((key, v) # rest) storyAcc =
     (if key = ''moduleExport'' then extract_fields ext rest storyAcc
      else if is_function v then extract_fields ext rest storyAcc
      else (case v of
              JArr xs \<Rightarrow> extract_fields ext rest (AList.update key (JArr (js_sort ext xs)) storyAcc)
            | _ \<Rightarrow> extract_fields ext rest (AList.update key v storyAcc)))"

definition extract_story :: "Externals \<Rightarrow> PreparedStory \<Rightarrow> (string \<times> jsval) list" where
  "extract_story ext st =
     extract_fields ext (story_entries st) [(''args'', JObj (initialArgs st))]"

record extract_options =
  includeDocsOnly :: "bool option"

definition default_options :: extract_options where
  "default_options = \<lparr>includeDocsOnly = Some False\<rparr>"

text \<open>
  The outer \<open>reduce\<close> of \<open>extract\<close>, over the entries of the index. A path that is not a
  key of the materialized map reads as \<open>undefined\<close>, and \<^verbatim>\<open>csfFile.stories\<close> is then a
  \<open>TypeError\<close>.
\<close>

fun extract_entries ::
  "Externals \<Rightarrow> (Path \<times> CSFFile) list \<Rightarrow> extract_options \<Rightarrow> StoryIndex \<Rightarrow> StoryStore
     \<Rightarrow> (StoryId \<times> (string \<times> jsval) list) list
     \<Rightarrow> (error + (StoryId \<times> (string \<times> jsval) list) list) \<times> StoryStore" where
  "extract_entries ext files options [] s acc = (Inr acc, s)"
| "extract_entries ext files options ((storyId, entry) # rest) s acc =
     (if type entry = docs then extract_entries ext files options rest s acc
      else (case map_of files (importPath entry) of
              None \<Rightarrow> (Inl TypeError, s)
            | Some csfFile \<Rightarrow>
                (case storyFromCSFFile ext s storyId csfFile of
                   (Inl e, s1) \<Rightarrow> (Inl e, s1)
                 | (Inr st, s1) \<Rightarrow>
                     (if includeDocsOnly options \<noteq> Some True
                           \<and> truthy (get_prop (parameters st) ''docsOnly'')
                      then extract_entries ext files options rest s1 acc
                      else extract_entries ext files options rest s1
                             (AList.update storyId (extract_story ext st) acc)))))"

definition extract' ::
  "Externals \<Rightarrow> StoryStore \<Rightarrow> extract_options
     \<Rightarrow> (error + (StoryId \<times> (string \<times> jsval) list) list) \<times> StoryStore" where
  "extract' ext s options =
     (case cachedCSFFiles s of
        None \<Rightarrow> (Inl CalledExtractOnStoreError, s)
      | Some files \<Rightarrow> extract_entries ext files options (storyIndex s) s [])"

text \<open>
  The calls of \<open>storyFromCSFFile\<close> that \<open>extract\<close> makes, in their order, with the story
  that each returns: one for every entry of the index that is not of kind \<open>docs\<close>, on the
  store that the calls before it have left. The list ends where \<open>extract\<close> throws.
\<close>

fun resolved_stories ::
  "Externals \<Rightarrow> (Path \<times> CSFFile) list \<Rightarrow> StoryIndex \<Rightarrow> StoryStore
     \<Rightarrow> (StoryId \<times> PreparedStory) list" where
  "resolved_stories ext files [] s = []"
| "resolved_stories ext files ((storyId, entry) # rest) s =
     (if type entry = docs then resolved_stories ext files rest s
      else (case map_of files (importPath entry) of
              None \<Rightarrow> []
            | Some csfFile \<Rightarrow>
                (case storyFromCSFFile ext s storyId csfFile of
                   (Inl e, s1) \<Rightarrow> []
                 | (Inr st, s1) \<Rightarrow> (storyId, st) # resolved_stories ext files rest s1)))"

text \<open>
  \<open>fromId\<close>. The bound story is the resolved story with a closure \<open>storyFn\<close> added; the
  closure is not modelled, the result is the resolved story, or \<open>None\<close> for \<open>null\<close>.
\<close>

definition fromId ::
  "Externals \<Rightarrow> StoryStore \<Rightarrow> StoryId \<Rightarrow> (error + PreparedStory option) \<times> StoryStore" where
  "fromId ext s storyId =
     (case cachedCSFFiles s of
        None \<Rightarrow> (Inl (Error ''Cannot call fromId/raw() unless you call cacheAllCSFFiles() first.''), s)
      | Some files \<Rightarrow>
          (case storyIdToEntry (storyIndex s) storyId of
             Inl err \<Rightarrow> (Inr None, s)
           | Inr entry \<Rightarrow>
               (case map_of files (importPath entry) of
                  None \<Rightarrow> (Inl TypeError, s)
                | Some csfFile \<Rightarrow>
                    (case storyFromCSFFile ext s storyId csfFile of
                       (Inl e, s1) \<Rightarrow> (Inl e, s1)
                     | (Inr st, s1) \<Rightarrow> (Inr (Some st), s1)))))"

subsection \<open>Reachable stores\<close>

text \<open>
  The stores that a run of the methods above can produce from a new store. The argument
  store and the store of globals are public and have methods of their own, so a run may
  also replace their contents. The methods of the class that are not modelled
  (\<open>preparedMetaFromCSFFile\<close>, \<open>componentStoriesFromCSFFile\<close>, \<open>loadEntry\<close>,
  \<open>getStoryContext\<close>, the two export formats and \<open>raw\<close>) change the store only through
  the methods below. An asynchronous method may have been called on any store (\<open>s\<close>) and
  resumes on a reachable one (\<open>s'\<close>); the store between the assignments of
  \<open>onStoriesChanged\<close> and its resumption is reachable too.
\<close>

inductive reachable :: "Externals \<Rightarrow> StoryStore \<Rightarrow> bool" for ext :: Externals where
  reach_new: "reachable ext (new_StoryStore ext index imp pa)"
| reach_setProjectAnnotations:
    "reachable ext s \<Longrightarrow> reachable ext (setProjectAnnotations ext s pa)"
| reach_args:
    "reachable ext s \<Longrightarrow> reachable ext (s\<lparr>args := a\<rparr>)"
| reach_globals:
    "reachable ext s \<Longrightarrow> reachable ext (s\<lparr>globals := g\<rparr>)"
| reach_importFn:
    "reachable ext s \<Longrightarrow> reachable ext (s\<lparr>importFn := f\<rparr>)"
| reach_storyIndex:
    "reachable ext s \<Longrightarrow> reachable ext (s\<lparr>storyIndex := entries\<rparr>)"
| reach_onStoriesChanged:
    "reachable ext s \<Longrightarrow> reachable ext s' \<Longrightarrow>
       reachable ext (snd (onStoriesChanged ext s importFn_arg storyIndex_arg s'))"
| reach_cacheAllCSFFiles:
    "reachable ext s' \<Longrightarrow> reachable ext (snd (cacheAllCSFFiles ext s s'))"
| reach_loadStory:
    "reachable ext s' \<Longrightarrow> reachable ext (snd (loadStory ext s storyId s'))"
| reach_storyFromCSFFile:
    "reachable ext s \<Longrightarrow> reachable ext (snd (storyFromCSFFile ext s storyId csfFile))"
| reach_cleanupStory:
    "reachable ext s \<Longrightarrow> reachable ext (snd (cleanupStory s st))"
| reach_extract:
    "reachable ext s \<Longrightarrow> reachable ext (snd (extract' ext s options))"
| reach_fromId:
    "reachable ext s \<Longrightarrow> reachable ext (snd (fromId ext s storyId))"

text \<open>
  The stores that a run can produce from a new store before any \<open>cacheAllCSFFiles\<close> has
  succeeded.
\<close>

inductive never_materialized :: "Externals \<Rightarrow> StoryStore \<Rightarrow> bool" for ext :: Externals where
  nm_new: "never_materialized ext (new_StoryStore ext index imp pa)"
| nm_setProjectAnnotations:
    "never_materialized ext s \<Longrightarrow> never_materialized ext (setProjectAnnotations ext s pa)"
| nm_args:
    "never_materialized ext s \<Longrightarrow> never_materialized ext (s\<lparr>args := a\<rparr>)"
| nm_globals:
    "never_materialized ext s \<Longrightarrow> never_materialized ext (s\<lparr>globals := g\<rparr>)"
| nm_onStoriesChanged:
    "never_materialized ext s \<Longrightarrow>
       never_materialized ext (snd (onStoriesChanged ext s importFn_arg storyIndex_arg s'))"
| nm_cacheAllCSFFiles_failed:
    "never_materialized ext s' \<Longrightarrow> isl (fst (cacheAllCSFFiles ext s s')) \<Longrightarrow>
       never_materialized ext (snd (cacheAllCSFFiles ext s s'))"
| nm_loadStory:
    "never_materialized ext s' \<Longrightarrow> never_materialized ext (snd (loadStory ext s storyId s'))"
| nm_storyFromCSFFile:
    "never_materialized ext s \<Longrightarrow>
       never_materialized ext (snd (storyFromCSFFile ext s storyId csfFile))"
| nm_cleanupStory:
    "never_materialized ext s \<Longrightarrow> never_materialized ext (snd (cleanupStory s st))"
| nm_extract:
    "never_materialized ext s \<Longrightarrow> never_materialized ext (snd (extract' ext s options))"
| nm_fromId:
    "never_materialized ext s \<Longrightarrow> never_materialized ext (snd (fromId ext s storyId))"

text \<open>
  The stores that a run can produce after a \<open>cacheAllCSFFiles\<close> has succeeded: the store
  that a successful call leaves, whichever store it was called on and whichever it
  resumed on, and every store that the methods make of such a store.
\<close>

inductive materialized :: "Externals \<Rightarrow> StoryStore \<Rightarrow> bool" for ext :: Externals where
  m_cacheAllCSFFiles_succeeded:
    "cacheAllCSFFiles ext s s' = (Inr (), s1) \<Longrightarrow> materialized ext s1"
| m_setProjectAnnotations:
    "materialized ext s \<Longrightarrow> materialized ext (setProjectAnnotations ext s pa)"
| m_args:
    "materialized ext s \<Longrightarrow> materialized ext (s\<lparr>args := a\<rparr>)"
| m_globals:
    "materialized ext s \<Longrightarrow> materialized ext (s\<lparr>globals := g\<rparr>)"
| m_importFn:
    "materialized ext s \<Longrightarrow> materialized ext (s\<lparr>importFn := f\<rparr>)"
| m_storyIndex:
    "materialized ext s \<Longrightarrow> materialized ext (s\<lparr>storyIndex := entries\<rparr>)"
| m_onStoriesChanged:
    "materialized ext s \<Longrightarrow> materialized ext s' \<Longrightarrow>
       materialized ext (snd (onStoriesChanged ext s importFn_arg storyIndex_arg s'))"
| m_cacheAllCSFFiles:
    "materialized ext s' \<Longrightarrow> materialized ext (snd (cacheAllCSFFiles ext s s'))"
| m_loadStory:
    "materialized ext s' \<Longrightarrow> materialized ext (snd (loadStory ext s storyId s'))"
| m_storyFromCSFFile:
    "materialized ext s \<Longrightarrow> materialized ext (snd (storyFromCSFFile ext s storyId csfFile))"
| m_cleanupStory:
    "materialized ext s \<Longrightarrow> materialized ext (snd (cleanupStory s st))"
| m_extract:
    "materialized ext s \<Longrightarrow> materialized ext (snd (extract' ext s options))"
| m_fromId:
    "materialized ext s \<Longrightarrow> materialized ext (snd (fromId ext s storyId))"

subsection \<open>A small project, used to instantiate the theorems\<close>

text \<open>
  One module \<open>./A.stories\<close> with the stories \<open>s1\<close> and \<open>s2\<close> (the second marked
  documentation-only) and one documentation entry \<open>d1\<close> backed by \<open>./A.mdx\<close>.
\<close>

definition ex_index :: StoryIndex where
  "ex_index =
     [(''s1'', \<lparr>type = story, importPath = ''./A.stories'', title = ''A''\<rparr>),
      (''d1'', \<lparr>type = docs, importPath = ''./A.mdx'', title = ''A''\<rparr>),
      (''s2'', \<lparr>type = story, importPath = ''./A.stories'', title = ''A''\<rparr>)]"

definition ex_pa :: JSObject where
  "ex_pa = \<lparr>oid = 1, props = []\<rparr>"

definition ex_meta :: ComponentAnnotations where
  "ex_meta = \<lparr>oid = 10, props = [(''title'', JStr ''A'')]\<rparr>"

definition ex_sa1 :: StoryAnnotations where
  "ex_sa1 =
     \<lparr>oid = 21,
      props = [(''id'', JStr ''s1''),
               (''args'', JObj [(''label'', JStr ''Primary'')]),
               (''tags'', JArr [JStr ''b'', JUndefined, JStr ''a''])]\<rparr>"

definition ex_sa2 :: StoryAnnotations where
  "ex_sa2 =
     \<lparr>oid = 22,
      props = [(''id'', JStr ''s2''),
               (''parameters'', JObj [(''docsOnly'', JBool True)])]\<rparr>"

definition ex_csf :: CSFFile where
  "ex_csf =
     \<lparr>meta = ex_meta,
      stories = [(''s1'', ex_sa1), (''s2'', ex_sa2)],
      moduleExports = \<lparr>oid = 11, props = []\<rparr>\<rparr>"

definition ex_mdx :: CSFFile where
  "ex_mdx =
     \<lparr>meta = \<lparr>oid = 12, props = [(''title'', JStr ''A'')]\<rparr>,
      stories = [],
      moduleExports = \<lparr>oid = 7, props = []\<rparr>\<rparr>"

definition ex_processCSFFile :: "ModuleExports \<Rightarrow> Path \<Rightarrow> ComponentTitle \<Rightarrow> CSFFile" where
  "ex_processCSFFile exports path t =
     (if path = ''./A.stories'' then ex_csf\<lparr>moduleExports := exports\<rparr>
      else ex_mdx\<lparr>moduleExports := exports\<rparr>)"

definition ex_prepareStory ::
  "StoryAnnotations \<Rightarrow> ComponentAnnotations \<Rightarrow> NormalizedProjectAnnotations \<Rightarrow> PreparedStory" where
  "ex_prepareStory sa ca pa =
     \<lparr>story_oid = 0,
      id' = (case get_prop (props sa) ''id'' of JStr i \<Rightarrow> i | _ \<Rightarrow> []),
      parameters = (case get_prop (props sa) ''parameters'' of JObj ps \<Rightarrow> ps | _ \<Rightarrow> []),
      initialArgs = (case get_prop (props sa) ''args'' of JObj ps \<Rightarrow> ps | _ \<Rightarrow> []),
      otherFields =
        [(''title'', get_prop (props ca) ''title''),
         (''tags'', get_prop (props sa) ''tags''),
         (''moduleExport'', JObj (props sa)),
         (''unboundStoryFn'', JFun 1)]\<rparr>"

definition ex_ToString :: "jsval \<Rightarrow> nat list" where
  "ex_ToString v = (case v of JStr s \<Rightarrow> map of_char s | _ \<Rightarrow> [])"

definition ex_ext :: Externals where
  "ex_ext =
     \<lparr>processCSFFile = ex_processCSFFile,
      prepareStory = ex_prepareStory,
      normalizeProjectAnnotations = (\<lambda>pa. pa),
      new_GlobalsStore = (\<lambda>pa. []),
      GlobalsStore_set = (\<lambda>g pa. g),
      ToString = ex_ToString\<rparr>"

definition ex_importFn :: "Path \<Rightarrow> ModuleExports promise" where
  "ex_importFn path =
     (if path = ''./A.stories''
      then \<lparr>settledAt = 2, outcome = Inr \<lparr>oid = 11, props = []\<rparr>\<rparr>
      else \<lparr>settledAt = 1, outcome = Inr \<lparr>oid = 7, props = []\<rparr>\<rparr>)"

definition ex_store :: StoryStore where
  "ex_store = new_StoryStore ex_ext ex_index ex_importFn ex_pa"

definition ex_files :: "(Path \<times> CSFFile) list" where
  "ex_files = [(''./A.stories'', ex_csf), (''./A.mdx'', ex_mdx)]"

definition ex_materialized :: StoryStore where
  "ex_materialized = snd (cacheAllCSFFiles ex_ext ex_store ex_store)"

definition ex_story1 :: PreparedStory where
  "ex_story1 =
     \<lparr>story_oid = 0,
      id' = ''s1'',
      parameters = [],
      initialArgs = [(''label'', JStr ''Primary'')],
      otherFields =
        [(''title'', JStr ''A''),
         (''tags'', JArr [JStr ''b'', JUndefined, JStr ''a'']),
         (''moduleExport'', JObj (props ex_sa1)),
         (''unboundStoryFn'', JFun 1)]\<rparr>"

text \<open>The story that the store resolves for \<open>s2\<close> after it has resolved \<open>s1\<close>.\<close>

definition ex_story2 :: PreparedStory where
  "ex_story2 =
     \<lparr>story_oid = 2,
      id' = ''s2'',
      parameters = [(''docsOnly'', JBool True)],
      initialArgs = [],
      otherFields =
        [(''title'', JStr ''A''),
         (''tags'', JUndefined),
         (''moduleExport'', JObj (props ex_sa2)),
         (''unboundStoryFn'', JFun 1)]\<rparr>"

definition ex_store1 :: StoryStore where
  "ex_store1 = snd (storyFromCSFFile ex_ext ex_store ''s1'' ex_csf)"

definition ex_edited :: StoryStore where
  "ex_edited = ex_store\<lparr>args := [''s1'' \<mapsto> [(''label'', JStr ''Edited'')]]\<rparr>"

text \<open>
  The invariant of the registry: every handle was allocated by the store, and no handle
  is registered under two identifiers.
\<close>

definition hooks_ok :: "StoryStore \<Rightarrow> bool" where
  "hooks_ok s \<longleftrightarrow>
     (\<forall>i h. hooks s i = Some h \<longrightarrow> hc_oid h < next_oid s)
     \<and> (\<forall>i j h g. hooks s i = Some h \<longrightarrow> hooks s j = Some g \<longrightarrow> hc_oid h = hc_oid g \<longrightarrow> i = j)"

definition ex_store2 :: StoryStore where
  "ex_store2 = snd (storyFromCSFFile ex_ext ex_store1 ''s2'' ex_csf)"

text \<open>
  The arguments of the calls of \<open>importFn\<close> that \<open>loadAllCSFFiles\<close> makes, in the order of
  the calls: \<open>loadCSFFileByStoryId\<close> runs once for every entry of \<open>importPaths\<close> and calls
  the loader when it finds the representative in the index.
\<close>

definition importFn_calls :: "StoryStore \<Rightarrow> Path list" where
  "importFn_calls s =
     concat (map (\<lambda>(path, storyId).
                    case storyIdToEntry (storyIndex s) storyId of
                      Inl e \<Rightarrow> []
                    | Inr entry \<Rightarrow> [importPath entry])
               (importPaths_of (storyIndex s)))"

definition ex_flaky_importFn :: "Path \<Rightarrow> ModuleExports promise" where
  "ex_flaky_importFn path =
     (if path = ''./A.stories''
      then \<lparr>settledAt = 5, outcome = Inl (LoaderFailure ''late'')\<rparr>
      else \<lparr>settledAt = 2, outcome = Inl (LoaderFailure ''early'')\<rparr>)"

definition ex_flaky :: StoryStore where
  "ex_flaky = ex_materialized\<lparr>importFn := ex_flaky_importFn\<rparr>"

definition ex_stale :: StoryStore where
  "ex_stale =
     new_StoryStore ex_ext [(''s3'', \<lparr>type = story, importPath = ''./A.stories'', title = ''A''\<rparr>)]
       ex_importFn ex_pa"

text \<open>
  An index installed while \<open>cacheAllCSFFiles\<close> waits for the modules of the first index:
  the call resumes on the store with the new index and assigns the map of the old one.
\<close>

definition ex_late_index :: StoryIndex where
  "ex_late_index = [(''b1'', \<lparr>type = story, importPath = ''./B.stories'', title = ''B''\<rparr>)]"

definition ex_overlapped :: StoryStore where
  "ex_overlapped = snd (cacheAllCSFFiles ex_ext ex_store (ex_store\<lparr>storyIndex := ex_late_index\<rparr>))"

section \<open>Properties\<close>

subsection \<open>What the methods leave unchanged\<close>


lemma prepareStoryWithCache_frame:
  "hooks (snd (prepareStoryWithCache ext s sa ca pa)) = hooks s"
  "args (snd (prepareStoryWithCache ext s sa ca pa)) = args s"
  "cachedCSFFiles (snd (prepareStoryWithCache ext s sa ca pa)) = cachedCSFFiles s"
  "storyIndex (snd (prepareStoryWithCache ext s sa ca pa)) = storyIndex s"
  "importFn (snd (prepareStoryWithCache ext s sa ca pa)) = importFn s"
  "projectAnnotations (snd (prepareStoryWithCache ext s sa ca pa)) = projectAnnotations s"
  by (simp_all add: prepareStoryWithCache_def Let_def split: option.splits)

lemma ensure_hooks_frame:
  "args (ensure_hooks s i) = args s"
  "cachedCSFFiles (ensure_hooks s i) = cachedCSFFiles s"
  "storyIndex (ensure_hooks s i) = storyIndex s"
  "importFn (ensure_hooks s i) = importFn s"
  "projectAnnotations (ensure_hooks s i) = projectAnnotations s"
  "prepareStoryCache (ensure_hooks s i) = prepareStoryCache s"
  by (simp_all add: ensure_hooks_def split: option.splits)

lemma ensure_hooks_keep: "hooks s j = Some h \<Longrightarrow> hooks (ensure_hooks s i) j = Some h"
  by (auto simp: ensure_hooks_def split: option.splits)

lemma ensure_hooks_defined: "hooks (ensure_hooks s i) i \<noteq> None"
  by (auto simp: ensure_hooks_def split: option.splits)

lemma storyFromCSFFile_frame:
  "cachedCSFFiles (snd (storyFromCSFFile ext s sid csf)) = cachedCSFFiles s"
  "storyIndex (snd (storyFromCSFFile ext s sid csf)) = storyIndex s"
  "importFn (snd (storyFromCSFFile ext s sid csf)) = importFn s"
  "projectAnnotations (snd (storyFromCSFFile ext s sid csf)) = projectAnnotations s"
  by (simp_all add: storyFromCSFFile_def Let_def case_prod_beta ensure_hooks_frame
      prepareStoryWithCache_frame split: option.splits)

lemma storyFromCSFFile_hooks_keep:
  "hooks s j = Some h \<Longrightarrow> hooks (snd (storyFromCSFFile ext s sid csf)) j = Some h"
  by (simp add: storyFromCSFFile_def Let_def case_prod_beta ensure_hooks_keep
      prepareStoryWithCache_frame split: option.splits)

subsection \<open>The legacy lookup by identifier\<close>

lemma fromId_no_map:
  "cachedCSFFiles s = None \<Longrightarrow>
     fromId ext s storyId =
       (Inl (Error ''Cannot call fromId/raw() unless you call cacheAllCSFFiles() first.''), s)"
  by (simp add: fromId_def)

lemma fromId_not_usage_error:
  "cachedCSFFiles s = Some files \<Longrightarrow> fst (fromId ext s storyId) \<noteq> Inl (Error msg)"
  by (simp add: fromId_def storyFromCSFFile_def Let_def case_prod_beta
      split: option.splits sum.splits)

lemma fromId_null:
  "cachedCSFFiles s = Some files \<Longrightarrow> storyId \<notin> fst ` set (storyIndex s) \<Longrightarrow>
     fromId ext s storyId = (Inr None, s)"
  by (simp add: fromId_def storyIdToEntry_def map_of_eq_None_iff [symmetric])

text \<open>
  C9. \<open>fromId\<close> on a store whose materialized map exists returns \<open>null\<close> for a story
  identifier that is absent from the index: the failed lookup is caught, not propagated.
  The usage error for a missing materialized map is raised before the index is consulted:
  without the map every call raises it, whatever the index holds, and with the map no call
  raises it.
\<close>

theorem fromId_missing_entry:
  "(cachedCSFFiles s = None \<longrightarrow>
      fromId ext s storyId =
        (Inl (Error ''Cannot call fromId/raw() unless you call cacheAllCSFFiles() first.''), s))
   \<and> (cachedCSFFiles s \<noteq> None \<longrightarrow>
        (\<forall>msg. fst (fromId ext s storyId) \<noteq> Inl (Error msg))
        \<and> (storyId \<notin> fst ` set (storyIndex s) \<longrightarrow> fromId ext s storyId = (Inr None, s)))"
  using fromId_no_map fromId_not_usage_error fromId_null by blast

subsection \<open>Resolving a story\<close>

lemma prepareStoryWithCache_result_cached:
  "map_of (prepareStoryCache (snd (prepareStoryWithCache ext s sa ca pa))) (oid sa, oid ca, oid pa)
     = Some (fst (prepareStoryWithCache ext s sa ca pa))"
  by (simp add: prepareStoryWithCache_def Let_def STORY_CACHE_SIZE_def split: option.splits)

lemma prepareStoryWithCache_hit:
  "map_of (prepareStoryCache s) (oid sa, oid ca, oid pa) = Some st \<Longrightarrow>
     fst (prepareStoryWithCache ext s sa ca pa) = st"
  by (simp add: prepareStoryWithCache_def Let_def)

lemma storyFromCSFFile_Some:
  "map_of (stories csf) sid = Some sa \<Longrightarrow>
     storyFromCSFFile ext s sid csf =
       (Inr (fst (prepareStoryWithCache ext s sa (meta csf) (projectAnnotations s))),
        ensure_hooks
          ((snd (prepareStoryWithCache ext s sa (meta csf) (projectAnnotations s)))
             \<lparr>args := setInitial (args s)
                (fst (prepareStoryWithCache ext s sa (meta csf) (projectAnnotations s)))\<rparr>)
          (id' (fst (prepareStoryWithCache ext s sa (meta csf) (projectAnnotations s)))))"
  by (simp add: storyFromCSFFile_def Let_def case_prod_beta prepareStoryWithCache_frame)

lemma storyFromCSFFile_None:
  "map_of (stories csf) sid = None \<Longrightarrow>
     storyFromCSFFile ext s sid csf = (Inl (MissingStoryFromCsfFileError sid), s)"
  by (simp add: storyFromCSFFile_def)

lemma storyFromCSFFile_cache:
  "map_of (stories csf) sid = Some sa \<Longrightarrow>
     prepareStoryCache (snd (storyFromCSFFile ext s sid csf)) =
       prepareStoryCache (snd (prepareStoryWithCache ext s sa (meta csf) (projectAnnotations s)))"
  by (simp add: storyFromCSFFile_Some ensure_hooks_frame)

text \<open>
  C4. Two calls of \<open>storyFromCSFFile\<close> on the same store with the same identities of story
  annotations, component annotations and project annotations return the identical
  resolved story (the same \<open>story_oid\<close> and the same fields), as long as the cache entry
  that the first call left has not been evicted: the entry is there right after the first
  call, so an immediate second call returns the same instance, and so does a call in any
  later state that still holds the entry.
\<close>

theorem storyFromCSFFile_same_instance:
  assumes "storyFromCSFFile ext s storyId csfFile = (Inr st, s1)"
    and "map_of (stories csfFile) storyId = Some sa"
  shows "map_of (prepareStoryCache s1) (oid sa, oid (meta csfFile), oid (projectAnnotations s)) = Some st
     \<and> fst (storyFromCSFFile ext s1 storyId csfFile) = Inr st
     \<and> (\<forall>s2 storyId2 csfFile2 sa2.
           map_of (prepareStoryCache s2) (oid sa, oid (meta csfFile), oid (projectAnnotations s))
             = Some st
           \<longrightarrow> map_of (stories csfFile2) storyId2 = Some sa2
           \<longrightarrow> oid sa2 = oid sa
           \<longrightarrow> oid (meta csfFile2) = oid (meta csfFile)
           \<longrightarrow> oid (projectAnnotations s2) = oid (projectAnnotations s)
           \<longrightarrow> fst (storyFromCSFFile ext s2 storyId2 csfFile2) = Inr st)"
proof -
  let ?key = "(oid sa, oid (meta csfFile), oid (projectAnnotations s))"
  have st: "st = fst (prepareStoryWithCache ext s sa (meta csfFile) (projectAnnotations s))"
    using assms by (simp add: storyFromCSFFile_Some)
  have s1: "s1 = snd (storyFromCSFFile ext s storyId csfFile)"
    using assms(1) by simp
  have cached: "map_of (prepareStoryCache s1) ?key = Some st"
    unfolding s1 st storyFromCSFFile_cache [OF assms(2)]
    by (rule prepareStoryWithCache_result_cached)
  have later: "fst (storyFromCSFFile ext s2 storyId2 csfFile2) = Inr st"
    if "map_of (prepareStoryCache s2) ?key = Some st"
      and "map_of (stories csfFile2) storyId2 = Some sa2"
      and "oid sa2 = oid sa" and "oid (meta csfFile2) = oid (meta csfFile)"
      and "oid (projectAnnotations s2) = oid (projectAnnotations s)"
    for s2 storyId2 csfFile2 sa2
    using that by (simp add: storyFromCSFFile_Some prepareStoryWithCache_hit)
  have pa: "projectAnnotations s1 = projectAnnotations s"
    unfolding s1 by (rule storyFromCSFFile_frame)
  have again: "fst (storyFromCSFFile ext s1 storyId csfFile) = Inr st"
    using later [OF cached assms(2)] pa by simp
  show ?thesis using cached again later by blast
qed

text \<open>
  C5. For a story identifier present in the file record, \<open>storyFromCSFFile\<close> succeeds;
  afterwards the argument store holds the initial arguments of the resolved story under
  the story's identifier if it held nothing there before, a value that it held before is
  unchanged, and so is every other entry. The store reads the identifier from the
  resolved story; it is the requested one when \<open>prepareStory\<close> keeps the identifier of
  the annotations, and the last part says the same for the requested identifier.
\<close>

theorem storyFromCSFFile_seeds_args:
  assumes "map_of (stories csfFile) storyId = Some sa"
  shows "\<exists>st s1. storyFromCSFFile ext s storyId csfFile = (Inr st, s1)
     \<and> (args s (id' st) = None \<longrightarrow> args s1 (id' st) = Some (initialArgs st))
     \<and> (\<forall>v. args s (id' st) = Some v \<longrightarrow> args s1 (id' st) = Some v)
     \<and> (\<forall>j. j \<noteq> id' st \<longrightarrow> args s1 j = args s j)
     \<and> (id' st = storyId \<longrightarrow>
          (args s storyId = None \<longrightarrow> args s1 storyId = Some (initialArgs st))
          \<and> (\<forall>v. args s storyId = Some v \<longrightarrow> args s1 storyId = Some v))"
  by (simp add: storyFromCSFFile_Some [OF assms] ensure_hooks_frame setInitial_def
      split: option.splits)

text \<open>
  C10. \<open>cleanupStory\<close> invokes \<open>clean\<close> on the handle of the story and leaves it in the
  registry: the store after the call differs from the store before only in that handle,
  which keeps its identity; every other registry entry is unchanged; and a later
  \<open>storyFromCSFFile\<close> finds the same, cleaned handle and creates no new one.
\<close>

theorem cleanupStory_keeps_handle:
  assumes "hooks s (id' st) = Some h"
  shows "cleanupStory s st = (Inr (), s\<lparr>hooks := (hooks s)(id' st \<mapsto> clean h)\<rparr>)
     \<and> hc_oid (clean h) = hc_oid h
     \<and> cleanCalls (clean h) = Suc (cleanCalls h)
     \<and> hooks (snd (cleanupStory s st)) (id' st) = Some (clean h)
     \<and> (\<forall>j. j \<noteq> id' st \<longrightarrow> hooks (snd (cleanupStory s st)) j = hooks s j)
     \<and> (\<forall>ext storyId csfFile.
           hooks (snd (storyFromCSFFile ext (snd (cleanupStory s st)) storyId csfFile)) (id' st)
             = Some (clean h))"
  using assms by (simp add: cleanupStory_def clean_def storyFromCSFFile_hooks_keep)


subsection \<open>The example project: loading, resolving, cleaning up\<close>


lemma ex_importPaths: "importPaths_of ex_index = [(''./A.stories'', ''s2''), (''./A.mdx'', ''d1'')]"
  by (simp add: importPaths_of_def ex_index_def)

lemma ex_store_fields:
  "storyIndex ex_store = ex_index" "importFn ex_store = ex_importFn"
  "cachedCSFFiles ex_store = None" "hooks ex_store = Map.empty" "args ex_store = Map.empty"
  "prepareStoryCache ex_store = []" "next_oid ex_store = 0"
  "projectAnnotations ex_store = ex_pa"
  by (simp_all add: ex_store_def new_StoryStore_def ex_ext_def)

lemma ex_loadAll: "outcome (loadAllCSFFiles ex_ext ex_store) = Inr ex_files"
  unfolding loadAllCSFFiles_def csfFilePromiseList_def ex_store_fields ex_importPaths
  by (simp add: then_promise_def Promise_all_def rejections_def fulfilments_def
      loadCSFFileByStoryId_def ex_store_fields storyIdToEntry_def ex_index_def ex_importFn_def
      processCSFFileWithCache_def ex_ext_def ex_files_def ex_processCSFFile_def ex_csf_def
      ex_mdx_def)

lemma ex_materialized_eq: "ex_materialized = ex_store\<lparr>cachedCSFFiles := Some ex_files\<rparr>"
  by (simp add: ex_materialized_def cacheAllCSFFiles_def ex_loadAll)

theorem fromId_missing_entry_witness:
  "cachedCSFFiles ex_store = None
   \<and> fromId ex_ext ex_store ''s1'' =
       (Inl (Error ''Cannot call fromId/raw() unless you call cacheAllCSFFiles() first.''), ex_store)
   \<and> cachedCSFFiles ex_materialized \<noteq> None
   \<and> ''s9'' \<notin> fst ` set (storyIndex ex_materialized)
   \<and> fromId ex_ext ex_materialized ''s9'' = (Inr None, ex_materialized)"
  using fromId_missing_entry [of ex_store ex_ext "''s1''"]
    fromId_missing_entry [of ex_materialized ex_ext "''s9''"]
  by (simp add: ex_materialized_eq ex_store_fields ex_index_def)


lemma ex_resolve_fresh:
  "prepareStoryCache s = [] \<Longrightarrow> next_oid s = 0 \<Longrightarrow> projectAnnotations s = ex_pa \<Longrightarrow>
     fst (storyFromCSFFile ex_ext s ''s1'' ex_csf) = Inr ex_story1"
  by (simp add: storyFromCSFFile_def Let_def case_prod_beta prepareStoryWithCache_def
      ex_csf_def ex_sa1_def ex_meta_def ex_pa_def ex_ext_def ex_prepareStory_def
      get_prop_def ex_story1_def)

lemma ex_resolve1_eq: "storyFromCSFFile ex_ext ex_store ''s1'' ex_csf = (Inr ex_story1, ex_store1)"
  by (simp add: prod_eq_iff ex_resolve_fresh ex_store_fields ex_store1_def)

lemma ex_lookup1: "map_of (stories ex_csf) ''s1'' = Some ex_sa1"
  by (simp add: ex_csf_def)

lemma ex_story1_fields:
  "id' ex_story1 = ''s1''" "initialArgs ex_story1 = [(''label'', JStr ''Primary'')]"
  "parameters ex_story1 = []"
  by (simp_all add: ex_story1_def)

lemma ex_store1_fields:
  "hooks ex_store1 = [''s1'' \<mapsto> new_HooksContext 1]"
  "args ex_store1 = [''s1'' \<mapsto> [(''label'', JStr ''Primary'')]]"
  "next_oid ex_store1 = 2"
  by (simp_all add: ex_store1_def storyFromCSFFile_def Let_def case_prod_beta
      prepareStoryWithCache_def ex_store_fields ex_csf_def ex_sa1_def ex_meta_def ex_pa_def
      ex_ext_def ex_prepareStory_def get_prop_def ensure_hooks_def setInitial_def)

theorem storyFromCSFFile_same_instance_witness:
  "storyFromCSFFile ex_ext ex_store ''s1'' ex_csf = (Inr ex_story1, ex_store1)
   \<and> map_of (stories ex_csf) ''s1'' = Some ex_sa1
   \<and> map_of (prepareStoryCache ex_store1)
         (oid ex_sa1, oid (meta ex_csf), oid (projectAnnotations ex_store)) = Some ex_story1
   \<and> fst (storyFromCSFFile ex_ext ex_store1 ''s1'' ex_csf) = Inr ex_story1"
proof -
  note T = storyFromCSFFile_same_instance [OF ex_resolve1_eq ex_lookup1]
  from T have 1: "map_of (prepareStoryCache ex_store1)
      (oid ex_sa1, oid (meta ex_csf), oid (projectAnnotations ex_store)) = Some ex_story1"
    by (rule conjunct1)
  from T have 2: "fst (storyFromCSFFile ex_ext ex_store1 ''s1'' ex_csf) = Inr ex_story1"
    by (rule conjunct1 [OF conjunct2])
  show ?thesis
    using ex_resolve1_eq ex_lookup1 1 2 by (intro conjI)
qed

theorem storyFromCSFFile_seeds_args_witness:
  "map_of (stories ex_csf) ''s1'' = Some ex_sa1
   \<and> args ex_store ''s1'' = None
   \<and> args (snd (storyFromCSFFile ex_ext ex_store ''s1'' ex_csf)) ''s1''
        = Some [(''label'', JStr ''Primary'')]
   \<and> args ex_edited ''s1'' = Some [(''label'', JStr ''Edited'')]
   \<and> args (snd (storyFromCSFFile ex_ext ex_edited ''s1'' ex_csf)) ''s1''
        = Some [(''label'', JStr ''Edited'')]"
proof -
  obtain st s1 where r: "storyFromCSFFile ex_ext ex_store ''s1'' ex_csf = (Inr st, s1)"
    and seed: "args ex_store (id' st) = None \<longrightarrow> args s1 (id' st) = Some (initialArgs st)"
  proof -
    from storyFromCSFFile_seeds_args [OF ex_lookup1, of ex_ext ex_store]
    show ?thesis by (elim exE conjE) (erule that)
  qed
  have st: "st = ex_story1"
    using r ex_resolve1_eq by simp
  have none: "args ex_store ''s1'' = None"
    by (simp add: ex_store_fields)
  have first: "args (snd (storyFromCSFFile ex_ext ex_store ''s1'' ex_csf)) ''s1''
      = Some [(''label'', JStr ''Primary'')]"
    using seed none unfolding r st ex_story1_fields snd_conv by (rule mp)
  obtain st2 s2 where r2: "storyFromCSFFile ex_ext ex_edited ''s1'' ex_csf = (Inr st2, s2)"
    and keep: "\<forall>v. args ex_edited (id' st2) = Some v \<longrightarrow> args s2 (id' st2) = Some v"
  proof -
    from storyFromCSFFile_seeds_args [OF ex_lookup1, of ex_ext ex_edited]
    show ?thesis by (elim exE conjE) (erule that)
  qed
  have "fst (storyFromCSFFile ex_ext ex_edited ''s1'' ex_csf) = Inr ex_story1"
    by (rule ex_resolve_fresh) (simp_all add: ex_edited_def ex_store_fields)
  then have st2: "st2 = ex_story1"
    using r2 by simp
  have edited: "args ex_edited ''s1'' = Some [(''label'', JStr ''Edited'')]"
    by (simp add: ex_edited_def)
  have second: "args (snd (storyFromCSFFile ex_ext ex_edited ''s1'' ex_csf)) ''s1''
      = Some [(''label'', JStr ''Edited'')]"
    using keep edited unfolding r2 st2 ex_story1_fields snd_conv by (elim allE) (rule mp)
  show ?thesis
    using ex_lookup1 none first edited second by (intro conjI)
qed

theorem cleanupStory_keeps_handle_witness:
  "hooks ex_store1 (id' ex_story1) = Some (new_HooksContext 1)
   \<and> fst (cleanupStory ex_store1 ex_story1) = Inr ()
   \<and> hooks (snd (cleanupStory ex_store1 ex_story1)) ''s1'' = Some \<lparr>hc_oid = 1, cleanCalls = 1\<rparr>
   \<and> hooks (snd (storyFromCSFFile ex_ext (snd (cleanupStory ex_store1 ex_story1)) ''s1'' ex_csf)) ''s1''
        = Some \<lparr>hc_oid = 1, cleanCalls = 1\<rparr>"
proof -
  have h: "hooks ex_store1 (id' ex_story1) = Some (new_HooksContext 1)"
    by (simp add: ex_store1_fields ex_story1_fields)
  note T = cleanupStory_keeps_handle [OF h]
  from T have 1: "fst (cleanupStory ex_store1 ex_story1) = Inr ()"
    by (simp only: fst_conv)
  from T have 2: "hooks (snd (cleanupStory ex_store1 ex_story1)) (id' ex_story1)
      = Some (clean (new_HooksContext 1))"
    by (elim conjE)
  from T have 3: "hooks (snd (storyFromCSFFile ex_ext (snd (cleanupStory ex_store1 ex_story1))
      ''s1'' ex_csf)) (id' ex_story1) = Some (clean (new_HooksContext 1))"
    by (elim conjE allE)
  have c: "clean (new_HooksContext 1) = \<lparr>hc_oid = 1, cleanCalls = 1\<rparr>"
    by (simp add: clean_def new_HooksContext_def)
  show ?thesis
    using h 1 2 3 unfolding c ex_story1_fields by (intro conjI)
qed

subsection \<open>The registry of hooks\<close>

lemma hooks_ok_same:
  "hooks_ok s \<Longrightarrow> hooks s' = hooks s \<Longrightarrow> next_oid s \<le> next_oid s' \<Longrightarrow> hooks_ok s'"
  unfolding hooks_ok_def by (metis order_less_le_trans)

lemma prepareStoryWithCache_next_oid:
  "next_oid s \<le> next_oid (snd (prepareStoryWithCache ext s sa ca pa))"
  by (simp add: prepareStoryWithCache_def Let_def split: option.splits)

lemma hooks_ok_ensure_hooks:
  assumes "hooks_ok s"
  shows "hooks_ok (ensure_hooks s i)"
proof (cases "hooks s i")
  case None
  have below: "hc_oid h < next_oid s" if "hooks s j = Some h" for j h
    using assms that unfolding hooks_ok_def by blast
  have inj: "j = k" if "hooks s j = Some h" "hooks s k = Some g" "hc_oid h = hc_oid g" for j k h g
    using assms that unfolding hooks_ok_def by blast
  have fresh: "hc_oid h \<noteq> next_oid s" if "hooks s j = Some h" for j h
    using below [OF that] by simp
  have look: "hooks (ensure_hooks s i) j
      = (if j = i then Some (new_HooksContext (next_oid s)) else hooks s j)" for j
    using None by (simp add: ensure_hooks_def)
  have nxt: "next_oid (ensure_hooks s i) = Suc (next_oid s)"
    using None by (simp add: ensure_hooks_def)
  show ?thesis
    unfolding hooks_ok_def
  proof (intro conjI allI impI)
    fix j h
    assume "hooks (ensure_hooks s i) j = Some h"
    then have "hc_oid h = next_oid s \<or> hooks s j = Some h"
      by (auto simp: look new_HooksContext_def split: if_splits)
    then show "hc_oid h < next_oid (ensure_hooks s i)"
      using below by (auto simp: nxt less_Suc_eq)
  next
    fix j k h g
    assume a: "hooks (ensure_hooks s i) j = Some h" "hooks (ensure_hooks s i) k = Some g"
      "hc_oid h = hc_oid g"
    have j: "(j = i \<and> hc_oid h = next_oid s) \<or> (j \<noteq> i \<and> hooks s j = Some h)"
      using a(1) by (auto simp: look new_HooksContext_def split: if_splits)
    have k: "(k = i \<and> hc_oid g = next_oid s) \<or> (k \<noteq> i \<and> hooks s k = Some g)"
      using a(2) by (auto simp: look new_HooksContext_def split: if_splits)
    show "j = k"
      using j k a(3) fresh inj by metis
  qed
next
  case (Some h)
  have "ensure_hooks s i = s\<lparr>hooks := hooks s\<rparr>"
    using Some by (simp add: ensure_hooks_def fun_upd_idem)
  then show ?thesis using assms by (simp add: hooks_ok_def)
qed

lemma hooks_ok_storyFromCSFFile:
  assumes "hooks_ok s"
  shows "hooks_ok (snd (storyFromCSFFile ext s storyId csfFile))"
proof (cases "map_of (stories csfFile) storyId")
  case None
  then show ?thesis using assms by (simp add: storyFromCSFFile_None)
next
  case (Some sa)
  let ?r = "prepareStoryWithCache ext s sa (meta csfFile) (projectAnnotations s)"
  have "hooks_ok ((snd ?r)\<lparr>args := setInitial (args s) (fst ?r)\<rparr>)"
    by (rule hooks_ok_same [OF assms])
      (simp_all add: prepareStoryWithCache_frame prepareStoryWithCache_next_oid)
  then show ?thesis
    by (simp add: storyFromCSFFile_Some [OF Some] hooks_ok_ensure_hooks)
qed

lemma hooks_ok_cleanupStory: "hooks_ok s \<Longrightarrow> hooks_ok (snd (cleanupStory s st))"
  unfolding hooks_ok_def cleanupStory_def clean_def
  by (auto split: option.splits if_splits)

lemma cacheAllCSFFiles_frame:
  "hooks (snd (cacheAllCSFFiles ext s s')) = hooks s'"
  "next_oid (snd (cacheAllCSFFiles ext s s')) = next_oid s'"
  "args (snd (cacheAllCSFFiles ext s s')) = args s'"
  "storyIndex (snd (cacheAllCSFFiles ext s s')) = storyIndex s'"
  "importFn (snd (cacheAllCSFFiles ext s s')) = importFn s'"
  by (simp_all add: cacheAllCSFFiles_def split: sum.splits)

lemma hooks_ok_onStoriesChanged:
  assumes "hooks_ok s" and "hooks_ok s'"
  shows "hooks_ok (snd (onStoriesChanged ext s f i s'))"
proof -
  let ?s1 = "case f of None \<Rightarrow> s | Some g \<Rightarrow> s\<lparr>importFn := g\<rparr>"
  let ?s2 = "case i of None \<Rightarrow> ?s1 | Some entries \<Rightarrow> ?s1\<lparr>storyIndex := entries\<rparr>"
  have 2: "hooks_ok ?s2"
    by (rule hooks_ok_same [OF assms(1)]) (simp_all split: option.splits)
  have c: "hooks_ok (snd (cacheAllCSFFiles ext ?s2 s'))"
    by (rule hooks_ok_same [OF assms(2)]) (simp_all add: cacheAllCSFFiles_frame)
  show ?thesis
    using 2 c by (simp add: onStoriesChanged_def Let_def split: option.splits)
qed

lemma hooks_ok_loadStory: "hooks_ok s' \<Longrightarrow> hooks_ok (snd (loadStory ext s storyId s'))"
  by (simp add: loadStory_def hooks_ok_storyFromCSFFile split: sum.splits)

lemma hooks_ok_extract_entries:
  "hooks_ok s \<Longrightarrow> hooks_ok (snd (extract_entries ext files options entries s acc))"
proof (induction entries arbitrary: s acc)
  case Nil
  then show ?case by simp
next
  case (Cons x entries)
  obtain storyId entry where x: "x = (storyId, entry)" by (cases x)
  show ?case
  proof (cases "type entry = docs")
    case True
    then show ?thesis using Cons by (simp add: x)
  next
    case False
    show ?thesis
    proof (cases "map_of files (importPath entry)")
      case None
      then show ?thesis using Cons.prems False by (simp add: x)
    next
      case (Some csfFile)
      have ok: "hooks_ok (snd (storyFromCSFFile ext s storyId csfFile))"
        by (rule hooks_ok_storyFromCSFFile [OF Cons.prems])
      obtain r s1 where r: "storyFromCSFFile ext s storyId csfFile = (r, s1)"
        by (cases "storyFromCSFFile ext s storyId csfFile")
      with ok have ok1: "hooks_ok s1" by simp
      show ?thesis
        using False Some r ok1 Cons.IH [OF ok1]
        by (cases r) (simp_all add: x)
    qed
  qed
qed

lemma hooks_ok_extract: "hooks_ok s \<Longrightarrow> hooks_ok (snd (extract' ext s options))"
  by (simp add: extract'_def hooks_ok_extract_entries split: option.splits)

lemma hooks_ok_fromId: "hooks_ok s \<Longrightarrow> hooks_ok (snd (fromId ext s storyId))"
proof -
  assume ok: "hooks_ok s"
  have "hooks_ok (snd (case storyFromCSFFile ext s storyId csfFile of
            (Inl e, s1) \<Rightarrow> (Inl e, s1) | (Inr st, s1) \<Rightarrow> (Inr (Some st), s1)))" for csfFile
    using hooks_ok_storyFromCSFFile [OF ok, of ext storyId csfFile]
    by (cases "storyFromCSFFile ext s storyId csfFile") (auto split: sum.splits)
  then show ?thesis
    using ok by (simp add: fromId_def split: option.splits sum.splits)
qed

lemma reachable_hooks_ok: "reachable ext s \<Longrightarrow> hooks_ok s"
proof (induction rule: reachable.induct)
  case (reach_new index imp pa)
  show ?case by (simp add: hooks_ok_def new_StoryStore_def)
next
  case (reach_setProjectAnnotations s pa)
  then show ?case by (auto intro: hooks_ok_same simp: setProjectAnnotations_def)
next
  case (reach_args s a)
  then show ?case by (auto intro: hooks_ok_same)
next
  case (reach_globals s g)
  then show ?case by (auto intro: hooks_ok_same)
next
  case (reach_importFn s f)
  then show ?case by (auto intro: hooks_ok_same)
next
  case (reach_storyIndex s entries)
  then show ?case by (auto intro: hooks_ok_same)
next
  case (reach_onStoriesChanged s s' importFn_arg storyIndex_arg)
  then show ?case by (simp add: hooks_ok_onStoriesChanged)
next
  case (reach_cacheAllCSFFiles s' s)
  then show ?case by (auto intro: hooks_ok_same simp: cacheAllCSFFiles_frame)
next
  case (reach_loadStory s' s storyId)
  then show ?case by (simp add: hooks_ok_loadStory)
next
  case (reach_storyFromCSFFile s storyId csfFile)
  then show ?case by (simp add: hooks_ok_storyFromCSFFile)
next
  case (reach_cleanupStory s st)
  then show ?case by (simp add: hooks_ok_cleanupStory)
next
  case (reach_extract s options)
  then show ?case by (simp add: hooks_ok_extract)
next
  case (reach_fromId s storyId)
  then show ?case by (simp add: hooks_ok_fromId)
qed

lemma storyFromCSFFile_hooks_defined:
  "storyFromCSFFile ext s storyId csfFile = (Inr st, s1) \<Longrightarrow> hooks s1 (id' st) \<noteq> None"
  by (cases "map_of (stories csfFile) storyId")
    (auto simp: storyFromCSFFile_None storyFromCSFFile_Some ensure_hooks_def split: option.splits)

text \<open>
  C6. In every reachable store the registry holds at most one handle per story identifier
  and no handle under two identifiers (the handles of different identifiers are different
  objects). A successful \<open>storyFromCSFFile\<close> leaves a handle under the identifier of the
  story it returns and keeps every handle that was there; any later \<open>storyFromCSFFile\<close>
  leaves that entry, and every other existing entry, as it is.
\<close>

theorem single_hook_handle:
  assumes "reachable ext s"
  shows "(\<forall>i j h g. hooks s i = Some h \<longrightarrow> hooks s j = Some g \<longrightarrow> hc_oid h = hc_oid g \<longrightarrow> i = j)
     \<and> (\<forall>storyId csfFile st s1.
           storyFromCSFFile ext s storyId csfFile = (Inr st, s1) \<longrightarrow>
             hooks s1 (id' st) \<noteq> None
             \<and> (\<forall>j h. hooks s j = Some h \<longrightarrow> hooks s1 j = Some h)
             \<and> (\<forall>storyId2 csfFile2 j h.
                   hooks s1 j = Some h \<longrightarrow>
                   hooks (snd (storyFromCSFFile ext s1 storyId2 csfFile2)) j = Some h))"
proof -
  have inj: "\<forall>i j h g. hooks s i = Some h \<longrightarrow> hooks s j = Some g \<longrightarrow> hc_oid h = hc_oid g \<longrightarrow> i = j"
    using reachable_hooks_ok [OF assms] unfolding hooks_ok_def by (rule conjunct2)
  have after: "hooks s1 (id' st) \<noteq> None
      \<and> (\<forall>j h. hooks s j = Some h \<longrightarrow> hooks s1 j = Some h)
      \<and> (\<forall>storyId2 csfFile2 j h.
            hooks s1 j = Some h \<longrightarrow>
            hooks (snd (storyFromCSFFile ext s1 storyId2 csfFile2)) j = Some h)"
    if call: "storyFromCSFFile ext s storyId csfFile = (Inr st, s1)"
    for storyId csfFile st s1
  proof (intro conjI allI impI)
    show "hooks s1 (id' st) \<noteq> None"
      using call by (rule storyFromCSFFile_hooks_defined)
    show "hooks s1 j = Some h" if "hooks s j = Some h" for j h
      using storyFromCSFFile_hooks_keep [OF that, of ext storyId csfFile] call by simp
    show "hooks (snd (storyFromCSFFile ext s1 storyId2 csfFile2)) j = Some h"
      if "hooks s1 j = Some h" for storyId2 csfFile2 j h
      using that by (rule storyFromCSFFile_hooks_keep)
  qed
  show ?thesis
  proof (intro conjI allI impI)
    show "i = j" if "hooks s i = Some h" "hooks s j = Some g" "hc_oid h = hc_oid g" for i j h g
      using inj that by blast
  qed (use after in blast)+
qed

lemma ex_store1_more:
  "prepareStoryCache ex_store1 = [((21, 10, 1), ex_story1)]"
  "projectAnnotations ex_store1 = ex_pa"
  by (simp_all add: ex_store1_def storyFromCSFFile_def Let_def case_prod_beta
      prepareStoryWithCache_def ex_store_fields ex_csf_def ex_sa1_def ex_meta_def ex_pa_def
      ex_ext_def ex_prepareStory_def get_prop_def ensure_hooks_def setInitial_def
      ex_story1_def STORY_CACHE_SIZE_def)

lemma ex_store2_hooks:
  "hooks ex_store2 ''s1'' = Some (new_HooksContext 1)"
  "hooks ex_store2 ''s2'' = Some (new_HooksContext 3)"
  by (simp_all add: ex_store2_def storyFromCSFFile_def Let_def case_prod_beta
      prepareStoryWithCache_def ex_store1_fields ex_store1_more ex_csf_def ex_sa2_def ex_meta_def
      ex_pa_def ex_ext_def ex_prepareStory_def get_prop_def ensure_hooks_def setInitial_def)

theorem single_hook_handle_witness:
  "reachable ex_ext ex_store
   \<and> storyFromCSFFile ex_ext ex_store ''s1'' ex_csf = (Inr ex_story1, ex_store1)
   \<and> hooks ex_store1 ''s1'' = Some (new_HooksContext 1)
   \<and> hooks (snd (storyFromCSFFile ex_ext ex_store1 ''s1'' ex_csf)) ''s1'' = Some (new_HooksContext 1)
   \<and> reachable ex_ext ex_store2
   \<and> hooks ex_store2 ''s1'' = Some (new_HooksContext 1)
   \<and> hooks ex_store2 ''s2'' = Some (new_HooksContext 3)
   \<and> hc_oid (new_HooksContext 1) \<noteq> hc_oid (new_HooksContext 3)"
proof -
  have r0: "reachable ex_ext ex_store"
    unfolding ex_store_def by (rule reach_new)
  have r2: "reachable ex_ext ex_store2"
    unfolding ex_store2_def ex_store1_def by (intro reach_storyFromCSFFile r0)
  have h1: "hooks ex_store1 ''s1'' = Some (new_HooksContext 1)"
    by (simp add: ex_store1_fields)
  note after_first = single_hook_handle [OF r0, THEN conjunct2, rule_format, OF ex_resolve1_eq]
  have again: "hooks (snd (storyFromCSFFile ex_ext ex_store1 ''s1'' ex_csf)) ''s1''
      = Some (new_HooksContext 1)"
    by (rule after_first [THEN conjunct2, THEN conjunct2, rule_format, OF h1])
  have "''s1'' = ''s2''" if "hc_oid (new_HooksContext 1) = hc_oid (new_HooksContext 3)"
    by (rule single_hook_handle [OF r2, THEN conjunct1, rule_format, OF ex_store2_hooks that])
  then have diff: "hc_oid (new_HooksContext 1) \<noteq> hc_oid (new_HooksContext 3)"
    by auto
  show ?thesis
    using r0 ex_resolve1_eq h1 again r2 ex_store2_hooks diff by (intro conjI)
qed

subsection \<open>The paths of the index\<close>

lemma set_update_subset: "set (AList.update k v al) \<subseteq> insert (k, v) (set al)"
  by (induction al) auto

lemma fold_update_keys:
  "fst ` set (fold (\<lambda>(storyId, entry) acc. AList.update (importPath entry) storyId acc) entries acc)
     = fst ` set acc \<union> importPath ` snd ` set entries"
  by (induction entries arbitrary: acc) (auto simp: AList.dom_update case_prod_beta)

lemma fold_update_distinct:
  "distinct (map fst acc) \<Longrightarrow>
     distinct (map fst (fold (\<lambda>(storyId, entry) acc. AList.update (importPath entry) storyId acc)
        entries acc))"
  by (induction entries arbitrary: acc) (auto simp: AList.distinct_update case_prod_beta)

lemma fold_update_representative:
  assumes "\<forall>(path, storyId) \<in> set acc. \<exists>entry. (storyId, entry) \<in> set all \<and> importPath entry = path"
    and "set entries \<subseteq> set all"
  shows "\<forall>(path, storyId) \<in> set (fold (\<lambda>(storyId, entry) acc. AList.update (importPath entry) storyId acc)
        entries acc). \<exists>entry. (storyId, entry) \<in> set all \<and> importPath entry = path"
  using assms
proof (induction entries arbitrary: acc)
  case Nil
  then show ?case by simp
next
  case (Cons x entries)
  obtain storyId entry where x: "x = (storyId, entry)" by (cases x)
  have "\<forall>(path, sid) \<in> set (AList.update (importPath entry) storyId acc).
      \<exists>e. (sid, e) \<in> set all \<and> importPath e = path"
    using Cons.prems x set_update_subset [of "importPath entry" storyId acc] by auto
  then show ?case
    using Cons.IH [of "AList.update (importPath entry) storyId acc"] Cons.prems(2)
    by (simp add: x)
qed

lemma importPaths_of_keys:
  "fst ` set (importPaths_of entries) = importPath ` snd ` set entries"
  by (simp add: importPaths_of_def fold_update_keys)

lemma importPaths_of_distinct: "distinct (map fst (importPaths_of entries))"
  by (simp add: importPaths_of_def fold_update_distinct)

lemma importPaths_of_representative:
  "(path, storyId) \<in> set (importPaths_of entries) \<Longrightarrow>
     \<exists>entry. (storyId, entry) \<in> set entries \<and> importPath entry = path"
  using fold_update_representative [of "[]" entries entries]
  by (auto simp: importPaths_of_def)

lemma importPaths_of_entry:
  assumes "distinct (map fst entries)" and "(path, storyId) \<in> set (importPaths_of entries)"
  shows "\<exists>entry. storyIdToEntry entries storyId = Inr entry \<and> importPath entry = path"
proof -
  obtain entry where "(storyId, entry) \<in> set entries" "importPath entry = path"
    using importPaths_of_representative [OF assms(2)] by auto
  then show ?thesis
    using assms(1) by (simp add: storyIdToEntry_def)
qed

subsection \<open>Promises\<close>

lemma rejections_iff:
  "(t, e) \<in> set (rejections ps) \<longleftrightarrow> (\<exists>p \<in> set ps. settledAt p = t \<and> outcome p = Inl e)"
  by (induction ps) (auto simp: rejections_def split: sum.splits)

lemma rejections_Nil_iff: "rejections ps = [] \<longleftrightarrow> (\<forall>p \<in> set ps. \<not> isl (outcome p))"
  by (induction ps) (auto simp: rejections_def split: sum.splits)

lemma fulfilments_map:
  "\<forall>p \<in> set ps. outcome p = Inr (g p) \<Longrightarrow> fulfilments ps = map g ps"
  by (induction ps) (auto simp: fulfilments_def)

lemma Promise_all_fulfilled:
  "rejections ps = [] \<Longrightarrow> outcome (Promise_all ps) = Inr (fulfilments ps)"
  by (simp add: Promise_all_def)

lemma sort_key_first_least:
  assumes "sort_key f xs = y # ys"
  shows "y \<in> set xs \<and> (\<forall>x \<in> set xs. f y \<le> f x)"
proof -
  have "set (sort_key f xs) = set xs" by simp
  then have mem: "set xs = insert y (set ys)" using assms by simp
  have "sorted (map f (sort_key f xs))" by (rule sorted_sort_key)
  then have "\<forall>x \<in> set ys. f y \<le> f x" using assms by simp
  then show ?thesis using mem by auto
qed

lemma Promise_all_rejected:
  assumes "rejections ps \<noteq> []"
  shows "\<exists>p \<in> set ps. \<exists>e. outcome p = Inl e \<and> outcome (Promise_all ps) = Inl e
           \<and> (\<forall>q \<in> set ps. isl (outcome q) \<longrightarrow> settledAt p \<le> settledAt q)"
proof -
  obtain t e rest where srt: "sort_key fst (rejections ps) = (t, e) # rest"
    using assms by (cases "sort_key fst (rejections ps)") (auto dest: arg_cong [where f = set])
  have out: "outcome (Promise_all ps) = Inl e"
    by (simp add: Promise_all_def srt)
  from sort_key_first_least [OF srt]
  have mem: "(t, e) \<in> set (rejections ps)" and least: "\<forall>x \<in> set (rejections ps). t \<le> fst x"
    by auto
  obtain p where p: "p \<in> set ps" "settledAt p = t" "outcome p = Inl e"
    using mem by (auto simp: rejections_iff)
  have "settledAt p \<le> settledAt q" if q: "q \<in> set ps" "isl (outcome q)" for q
  proof -
    obtain e' where "outcome q = Inl e'" using q(2) by (cases "outcome q") auto
    then have "(settledAt q, e') \<in> set (rejections ps)"
      using q(1) by (auto simp: rejections_iff)
    then show ?thesis using least p(2) by auto
  qed
  then show ?thesis using p out by blast
qed

subsection \<open>The bulk load\<close>

lemma csf_promise:
  assumes "storyIdToEntry (storyIndex s) storyId = Inr entry" and "importPath entry = path"
  shows "then_promise (loadCSFFileByStoryId ext s storyId) (\<lambda>csfFile. (path, csfFile)) =
     \<lparr>settledAt = Suc (settledAt (importFn s path)),
      outcome = (case outcome (importFn s path) of
                   Inl e \<Rightarrow> Inl e
                 | Inr exports \<Rightarrow> Inr (path, processCSFFileWithCache ext exports path (title entry)))\<rparr>"
  using assms
  by (simp add: then_promise_def loadCSFFileByStoryId_def Let_def split: sum.splits)

lemma update_append: "k \<notin> fst ` set al \<Longrightarrow> AList.update k v al = al @ [(k, v)]"
  by (induction al) auto

lemma fold_update_append:
  "distinct (map fst (acc @ xs)) \<Longrightarrow>
     fold (\<lambda>(path, csfFile) acc. AList.update path csfFile acc) xs acc = acc @ xs"
proof (induction xs arbitrary: acc)
  case Nil
  then show ?case by simp
next
  case (Cons x xs)
  obtain k v where x: "x = (k, v)" by (cases x)
  have "k \<notin> fst ` set acc" using Cons.prems x by auto
  then have u: "AList.update k v acc = acc @ [(k, v)]" by (rule update_append)
  show ?case
    using Cons.IH [of "acc @ [(k, v)]"] Cons.prems by (simp add: x u)
qed

lemma concat_singletons: "\<forall>x \<in> set xs. f x = [g x] \<Longrightarrow> concat (map f xs) = map g xs"
  by (induction xs) auto

lemma importFn_calls_eq:
  assumes "distinct (map fst (storyIndex s))"
  shows "importFn_calls s = map fst (importPaths_of (storyIndex s))"
  unfolding importFn_calls_def
proof (rule concat_singletons, rule ballI)
  fix x
  assume x: "x \<in> set (importPaths_of (storyIndex s))"
  obtain path storyId where px: "x = (path, storyId)" by (cases x)
  obtain entry where "storyIdToEntry (storyIndex s) storyId = Inr entry" "importPath entry = path"
    using importPaths_of_entry [OF assms] x px by blast
  then show "(case x of (path, storyId) \<Rightarrow>
        case storyIdToEntry (storyIndex s) storyId of Inl e \<Rightarrow> [] | Inr entry \<Rightarrow> [importPath entry])
      = [fst x]"
    by (simp add: px)
qed

lemma importFn_calls_distinct:
  "distinct (map fst (storyIndex s)) \<Longrightarrow> distinct (importFn_calls s)"
  by (simp add: importFn_calls_eq importPaths_of_distinct)

lemma importFn_calls_set:
  "distinct (map fst (storyIndex s)) \<Longrightarrow>
     set (importFn_calls s) = importPath ` snd ` set (storyIndex s)"
  by (simp add: importFn_calls_eq importPaths_of_keys)

text \<open>The promise that \<open>loadAllCSFFiles\<close> creates for a path.\<close>

lemma promise_list_elem:
  assumes "distinct (map fst (storyIndex s))" and "p \<in> set (csfFilePromiseList ext s)"
  shows "\<exists>path \<in> set (importFn_calls s).
      settledAt p = Suc (settledAt (importFn s path))
      \<and> (\<forall>e. outcome p = Inl e \<longrightarrow> outcome (importFn s path) = Inl e)
      \<and> (\<forall>r. outcome p = Inr r \<longrightarrow>
            (\<exists>storyId entry exports.
                (storyId, entry) \<in> set (storyIndex s) \<and> importPath entry = path
              \<and> outcome (importFn s path) = Inr exports
              \<and> r = (path, processCSFFileWithCache ext exports path (title entry))))"
proof -
  obtain path storyId where mem: "(path, storyId) \<in> set (importPaths_of (storyIndex s))"
    and p: "p = then_promise (loadCSFFileByStoryId ext s storyId) (\<lambda>csfFile. (path, csfFile))"
    using assms(2) by (auto simp: csfFilePromiseList_def)
  obtain entry where e: "storyIdToEntry (storyIndex s) storyId = Inr entry" "importPath entry = path"
    using importPaths_of_entry [OF assms(1) mem] by blast
  have in_index: "(storyId, entry) \<in> set (storyIndex s)"
    using e(1) by (auto simp: storyIdToEntry_def split: option.splits dest: map_of_SomeD)
  have call: "path \<in> set (importFn_calls s)"
    using mem by (force simp: importFn_calls_eq [OF assms(1)])
  have time: "settledAt p = Suc (settledAt (importFn s path))"
    unfolding p csf_promise [OF e] by simp
  have rej: "outcome (importFn s path) = Inl err" if "outcome p = Inl err" for err
    using that unfolding p csf_promise [OF e] by (cases "outcome (importFn s path)") simp_all
  have ful: "\<exists>exports. outcome (importFn s path) = Inr exports
      \<and> r = (path, processCSFFileWithCache ext exports path (title entry))"
    if "outcome p = Inr r" for r
    using that unfolding p csf_promise [OF e] by (cases "outcome (importFn s path)") simp_all
  show ?thesis
    using call time rej ful in_index e(2) by blast
qed

lemma promise_list_path:
  assumes "distinct (map fst (storyIndex s))" and "path \<in> set (importFn_calls s)"
  shows "\<exists>p \<in> set (csfFilePromiseList ext s).
      settledAt p = Suc (settledAt (importFn s path))
      \<and> isl (outcome p) = isl (outcome (importFn s path))"
proof -
  obtain storyId where mem: "(path, storyId) \<in> set (importPaths_of (storyIndex s))"
    using assms(2) by (auto simp: importFn_calls_eq [OF assms(1)])
  obtain entry where e: "storyIdToEntry (storyIndex s) storyId = Inr entry" "importPath entry = path"
    using importPaths_of_entry [OF assms(1) mem] by blast
  let ?p = "then_promise (loadCSFFileByStoryId ext s storyId) (\<lambda>csfFile. (path, csfFile))"
  have "?p \<in> set (csfFilePromiseList ext s)"
    using mem by (force simp: csfFilePromiseList_def)
  moreover have "settledAt ?p = Suc (settledAt (importFn s path))"
    "isl (outcome ?p) = isl (outcome (importFn s path))"
    by (simp_all add: csf_promise [OF e] split: sum.splits)
  ultimately show ?thesis by blast
qed

text \<open>
  C2. When a call of the loader made by \<open>loadAllCSFFiles\<close> fails, the promise of
  \<open>loadAllCSFFiles\<close> is rejected, with the failure of a call that no other failing call
  precedes. The rejection carries no mapping, and \<open>cacheAllCSFFiles\<close> passes it on
  without assigning \<open>cachedCSFFiles\<close>: the store on which the call resumes (the store of
  the call, when nothing else ran in between) is left as it is.
\<close>

theorem loadAllCSFFiles_fails_fast:
  assumes "distinct (map fst (storyIndex s))"
    and "path \<in> set (importFn_calls s)"
    and "isl (outcome (importFn s path))"
  shows "\<exists>first e.
       first \<in> set (importFn_calls s)
     \<and> outcome (importFn s first) = Inl e
     \<and> (\<forall>q \<in> set (importFn_calls s).
           isl (outcome (importFn s q)) \<longrightarrow> settledAt (importFn s first) \<le> settledAt (importFn s q))
     \<and> outcome (loadAllCSFFiles ext s) = Inl e
     \<and> cacheAllCSFFiles ext s s' = (Inl e, s')"
proof -
  let ?ps = "csfFilePromiseList ext s"
  obtain p0 where "p0 \<in> set ?ps" "isl (outcome p0)"
    using promise_list_path [OF assms(1,2), of ext] assms(3) by auto
  then have "rejections ?ps \<noteq> []"
    by (auto simp: rejections_Nil_iff)
  from Promise_all_rejected [OF this]
  obtain p e where p: "p \<in> set ?ps" "outcome p = Inl e" "outcome (Promise_all ?ps) = Inl e"
    and least: "\<forall>q \<in> set ?ps. isl (outcome q) \<longrightarrow> settledAt p \<le> settledAt q"
    by blast
  obtain first where first: "first \<in> set (importFn_calls s)"
    and time: "settledAt p = Suc (settledAt (importFn s first))"
    and fail: "outcome (importFn s first) = Inl e"
    using promise_list_elem [OF assms(1) p(1)] p(2) by blast
  have order: "settledAt (importFn s first) \<le> settledAt (importFn s q)"
    if q: "q \<in> set (importFn_calls s)" "isl (outcome (importFn s q))" for q
  proof -
    obtain p' where "p' \<in> set ?ps" "settledAt p' = Suc (settledAt (importFn s q))" "isl (outcome p')"
      using promise_list_path [OF assms(1) q(1), of ext] q(2) by auto
    then show ?thesis using least time by auto
  qed
  have all: "outcome (loadAllCSFFiles ext s) = Inl e"
    by (simp add: loadAllCSFFiles_def then_promise_def p(3))
  then have "cacheAllCSFFiles ext s s' = (Inl e, s')"
    by (simp add: cacheAllCSFFiles_def)
  then show ?thesis
    using first fail order all by blast
qed

lemma fulfilments_mem: "r \<in> set (fulfilments ps) \<longleftrightarrow> (\<exists>p \<in> set ps. outcome p = Inr r)"
  by (induction ps) (auto simp: fulfilments_def split: sum.splits)

lemma fulfilments_keys:
  assumes "rejections (map h xs) = []"
    and "\<forall>x \<in> set xs. \<forall>r. outcome (h x) = Inr r \<longrightarrow> fst r = fst x"
  shows "map fst (fulfilments (map h xs)) = map fst xs"
  using assms
proof (induction xs)
  case Nil
  then show ?case by (simp add: fulfilments_def)
next
  case (Cons x xs)
  have tl: "rejections (map h xs) = []"
    using Cons.prems(1) by (simp add: rejections_Nil_iff)
  obtain r where r: "outcome (h x) = Inr r"
    using Cons.prems(1) by (cases "outcome (h x)") (auto simp: rejections_Nil_iff)
  have hd: "fulfilments (h x # map h xs) = r # fulfilments (map h xs)"
    by (simp add: fulfilments_def r)
  have "fst r = fst x"
    using Cons.prems(2) r by (cases r) auto
  moreover have "map fst (fulfilments (map h xs)) = map fst xs"
    using Cons.IH [OF tl] Cons.prems(2) by simp
  ultimately show ?case
    by (simp add: hd)
qed

lemma loadAllCSFFiles_keys:
  assumes "distinct (map fst (storyIndex s))"
    and "rejections (csfFilePromiseList ext s) = []"
  shows "map fst (fulfilments (csfFilePromiseList ext s)) = importFn_calls s"
proof -
  have "map fst (fulfilments (csfFilePromiseList ext s)) = map fst (importPaths_of (storyIndex s))"
    unfolding csfFilePromiseList_def
  proof (rule fulfilments_keys)
    show "rejections
        (map (\<lambda>(path, storyId).
                then_promise (loadCSFFileByStoryId ext s storyId) (\<lambda>csfFile. (path, csfFile)))
           (importPaths_of (storyIndex s))) = []"
      using assms(2) by (simp add: csfFilePromiseList_def)
    show "\<forall>x \<in> set (importPaths_of (storyIndex s)). \<forall>r.
        outcome (case x of (path, storyId) \<Rightarrow>
          then_promise (loadCSFFileByStoryId ext s storyId) (\<lambda>csfFile. (path, csfFile))) = Inr r
        \<longrightarrow> fst r = fst x"
      by (auto simp: then_promise_def split: sum.splits)
  qed
  then show ?thesis
    by (simp add: importFn_calls_eq [OF assms(1)])
qed

lemma loadAllCSFFiles_fulfilled:
  assumes "distinct (map fst (storyIndex s))"
    and "outcome (loadAllCSFFiles ext s) = Inr files"
  shows "rejections (csfFilePromiseList ext s) = []"
    and "files = fulfilments (csfFilePromiseList ext s)"
proof -
  let ?ps = "csfFilePromiseList ext s"
  show none: "rejections ?ps = []"
  proof (rule ccontr)
    assume "rejections ?ps \<noteq> []"
    from Promise_all_rejected [OF this] obtain e where "outcome (Promise_all ?ps) = Inl e"
      by blast
    then show False
      using assms(2) by (simp add: loadAllCSFFiles_def then_promise_def)
  qed
  have keys: "distinct (map fst (fulfilments ?ps))"
    by (simp add: loadAllCSFFiles_keys [OF assms(1) none] importFn_calls_distinct [OF assms(1)])
  have "fold (\<lambda>(path, csfFile) acc. AList.update path csfFile acc) (fulfilments ?ps) []
      = [] @ fulfilments ?ps"
    by (rule fold_update_append) (simp add: keys)
  then show "files = fulfilments ?ps"
    using assms(2)
    by (simp add: loadAllCSFFiles_def then_promise_def Promise_all_fulfilled [OF none])
qed

lemma loadAllCSFFiles_succeeds:
  assumes "distinct (map fst (storyIndex s))"
    and "\<forall>path \<in> set (importFn_calls s). \<not> isl (outcome (importFn s path))"
  shows "\<exists>files. outcome (loadAllCSFFiles ext s) = Inr files"
proof -
  let ?ps = "csfFilePromiseList ext s"
  have "\<not> isl (outcome p)" if p: "p \<in> set ?ps" for p
  proof
    assume "isl (outcome p)"
    then obtain e where "outcome p = Inl e" by (cases "outcome p") auto
    then obtain path where "path \<in> set (importFn_calls s)" "outcome (importFn s path) = Inl e"
      using promise_list_elem [OF assms(1) p] by blast
    then show False using assms(2) by auto
  qed
  then have "rejections ?ps = []"
    by (simp add: rejections_Nil_iff)
  then show ?thesis
    by (simp add: loadAllCSFFiles_def then_promise_def Promise_all_fulfilled)
qed

text \<open>
  C7. \<open>loadAllCSFFiles\<close> calls the loader once for every distinct path of the index: the
  paths of the calls are pairwise different and are exactly the paths of the index, each
  call is made for a story identifier of the index that has this path, and there is one
  promise per call. When all loads succeed the call returns a mapping; the keys of a
  returned mapping are the paths of the calls (each once), and each key is mapped to the
  file record that \<open>processCSFFile\<close> makes of the module loaded from this path, with the
  title of an index entry of this path.
\<close>

theorem loadAllCSFFiles_one_load_per_path:
  assumes "distinct (map fst (storyIndex s))"
  shows "distinct (importFn_calls s)
     \<and> set (importFn_calls s) = importPath ` snd ` set (storyIndex s)
     \<and> length (csfFilePromiseList ext s) = length (importFn_calls s)
     \<and> map fst (importPaths_of (storyIndex s)) = importFn_calls s
     \<and> (\<forall>path storyId.
           (path, storyId) \<in> set (importPaths_of (storyIndex s)) \<longrightarrow>
           (\<exists>entry. (storyId, entry) \<in> set (storyIndex s) \<and> importPath entry = path))
     \<and> ((\<forall>path \<in> set (importFn_calls s). \<not> isl (outcome (importFn s path))) \<longrightarrow>
           (\<exists>files. outcome (loadAllCSFFiles ext s) = Inr files))
     \<and> (\<forall>files.
           outcome (loadAllCSFFiles ext s) = Inr files \<longrightarrow>
             map fst files = importFn_calls s
           \<and> (\<forall>path csfFile.
                 (path, csfFile) \<in> set files \<longrightarrow>
                 (\<exists>storyId entry exports.
                     (storyId, entry) \<in> set (storyIndex s) \<and> importPath entry = path
                   \<and> outcome (importFn s path) = Inr exports
                   \<and> csfFile = processCSFFile ext exports path (title entry))))"
proof -
  have calls: "map fst (importPaths_of (storyIndex s)) = importFn_calls s"
    by (simp add: importFn_calls_eq [OF assms])
  have len: "length (csfFilePromiseList ext s) = length (importFn_calls s)"
    by (simp add: csfFilePromiseList_def calls [symmetric])
  have rep: "\<exists>entry. (storyId, entry) \<in> set (storyIndex s) \<and> importPath entry = path"
    if "(path, storyId) \<in> set (importPaths_of (storyIndex s))" for path storyId
    using that by (rule importPaths_of_representative)
  have keys: "map fst files = importFn_calls s"
    if "outcome (loadAllCSFFiles ext s) = Inr files" for files
    using loadAllCSFFiles_fulfilled [OF assms that] loadAllCSFFiles_keys [OF assms] by simp
  have vals: "\<exists>storyId entry exports.
        (storyId, entry) \<in> set (storyIndex s) \<and> importPath entry = path
      \<and> outcome (importFn s path) = Inr exports
      \<and> csfFile = processCSFFile ext exports path (title entry)"
    if ok: "outcome (loadAllCSFFiles ext s) = Inr files" and mem: "(path, csfFile) \<in> set files"
    for files path csfFile
  proof -
    have "(path, csfFile) \<in> set (fulfilments (csfFilePromiseList ext s))"
      using loadAllCSFFiles_fulfilled(2) [OF assms ok] mem by simp
    then obtain p where p: "p \<in> set (csfFilePromiseList ext s)" "outcome p = Inr (path, csfFile)"
      by (auto simp: fulfilments_mem)
    show ?thesis
      using promise_list_elem [OF assms p(1)] p(2)
      by (auto simp: processCSFFileWithCache_def)
  qed
  show ?thesis
    using importFn_calls_distinct [OF assms] importFn_calls_set [OF assms] len calls rep
      loadAllCSFFiles_succeeds [OF assms, of ext] keys vals
    by (intro conjI allI impI) (assumption | blast)+
qed

lemma ex_index_distinct: "distinct (map fst ex_index)"
  by (simp add: ex_index_def)

lemma ex_flaky_fields:
  "storyIndex ex_flaky = ex_index" "importFn ex_flaky = ex_flaky_importFn"
  "cachedCSFFiles ex_flaky = Some ex_files"
  by (simp_all add: ex_flaky_def ex_materialized_eq ex_store_fields)

lemma ex_calls:
  "storyIndex s = ex_index \<Longrightarrow> importFn_calls s = [''./A.stories'', ''./A.mdx'']"
  by (simp add: importFn_calls_eq ex_index_distinct ex_importPaths)

theorem loadAllCSFFiles_fails_fast_witness:
  "distinct (map fst (storyIndex ex_flaky))
   \<and> ''./A.stories'' \<in> set (importFn_calls ex_flaky)
   \<and> isl (outcome (importFn ex_flaky ''./A.stories''))
   \<and> outcome (loadAllCSFFiles ex_ext ex_flaky) = Inl (LoaderFailure ''early'')
   \<and> cacheAllCSFFiles ex_ext ex_flaky ex_flaky = (Inl (LoaderFailure ''early''), ex_flaky)
   \<and> cachedCSFFiles (snd (cacheAllCSFFiles ex_ext ex_flaky ex_flaky)) = Some ex_files"
proof -
  have d: "distinct (map fst (storyIndex ex_flaky))"
    by (simp add: ex_flaky_fields ex_index_distinct)
  have c: "''./A.stories'' \<in> set (importFn_calls ex_flaky)"
    by (simp add: ex_calls ex_flaky_fields)
  have f: "isl (outcome (importFn ex_flaky ''./A.stories''))"
    by (simp add: ex_flaky_fields ex_flaky_importFn_def)
  obtain first e where first: "first \<in> set (importFn_calls ex_flaky)"
    and fail: "outcome (importFn ex_flaky first) = Inl e"
    and least: "\<forall>q \<in> set (importFn_calls ex_flaky).
        isl (outcome (importFn ex_flaky q)) \<longrightarrow>
        settledAt (importFn ex_flaky first) \<le> settledAt (importFn ex_flaky q)"
    and out: "outcome (loadAllCSFFiles ex_ext ex_flaky) = Inl e"
    and cache: "cacheAllCSFFiles ex_ext ex_flaky ex_flaky = (Inl e, ex_flaky)"
    using loadAllCSFFiles_fails_fast [OF d c f, of ex_ext ex_flaky] by blast
  have "first = ''./A.stories'' \<or> first = ''./A.mdx''"
    using first by (simp add: ex_calls ex_flaky_fields)
  moreover have "first \<noteq> ''./A.stories''"
  proof
    assume "first = ''./A.stories''"
    then have "settledAt (ex_flaky_importFn ''./A.stories'') \<le> settledAt (ex_flaky_importFn ''./A.mdx'')"
      using least by (simp add: ex_calls ex_flaky_fields ex_flaky_importFn_def)
    then show False by (simp add: ex_flaky_importFn_def)
  qed
  ultimately have "first = ''./A.mdx''" by simp
  then have e: "e = LoaderFailure ''early''"
    using fail by (simp add: ex_flaky_fields ex_flaky_importFn_def)
  show ?thesis
    using d c f out cache by (simp add: e ex_flaky_fields)
qed

theorem loadAllCSFFiles_one_load_per_path_witness:
  "distinct (map fst (storyIndex ex_store))
   \<and> importFn_calls ex_store = [''./A.stories'', ''./A.mdx'']
   \<and> importPaths_of (storyIndex ex_store) = [(''./A.stories'', ''s2''), (''./A.mdx'', ''d1'')]
   \<and> \<not> isl (outcome (importFn ex_store ''./A.stories''))
   \<and> \<not> isl (outcome (importFn ex_store ''./A.mdx''))
   \<and> outcome (loadAllCSFFiles ex_ext ex_store) = Inr ex_files
   \<and> map fst ex_files = importFn_calls ex_store
   \<and> length (csfFilePromiseList ex_ext ex_store) = 2
   \<and> (''./A.stories'', ex_csf) \<in> set ex_files
   \<and> (\<exists>storyId entry exports.
          (storyId, entry) \<in> set (storyIndex ex_store) \<and> importPath entry = ''./A.stories''
        \<and> outcome (importFn ex_store ''./A.stories'') = Inr exports
        \<and> ex_csf = processCSFFile ex_ext exports ''./A.stories'' (title entry))"
proof -
  have d: "distinct (map fst (storyIndex ex_store))"
    by (simp add: ex_store_fields ex_index_distinct)
  note T = loadAllCSFFiles_one_load_per_path [OF d, of ex_ext]
  have calls: "importFn_calls ex_store = [''./A.stories'', ''./A.mdx'']"
    by (simp add: ex_calls ex_store_fields)
  have ok: "\<not> isl (outcome (importFn ex_store ''./A.stories''))"
    "\<not> isl (outcome (importFn ex_store ''./A.mdx''))"
    by (simp_all add: ex_store_fields ex_importFn_def)
  from T have "length (csfFilePromiseList ex_ext ex_store) = length (importFn_calls ex_store)"
    by (elim conjE)
  then have len: "length (csfFilePromiseList ex_ext ex_store) = 2"
    by (simp add: calls)
  from T have contents: "\<forall>files. outcome (loadAllCSFFiles ex_ext ex_store) = Inr files \<longrightarrow>
      map fst files = importFn_calls ex_store \<and>
      (\<forall>path csfFile. (path, csfFile) \<in> set files \<longrightarrow>
        (\<exists>storyId entry exports. (storyId, entry) \<in> set (storyIndex ex_store)
          \<and> importPath entry = path \<and> outcome (importFn ex_store path) = Inr exports
          \<and> csfFile = processCSFFile ex_ext exports path (title entry)))"
    by (elim conjE)
  then have keys: "map fst ex_files = importFn_calls ex_store"
    using ex_loadAll by blast
  have mem: "(''./A.stories'', ex_csf) \<in> set ex_files"
    by (simp add: ex_files_def)
  note record_of = contents [rule_format, OF ex_loadAll, THEN conjunct2, rule_format, OF mem]
  have paths: "importPaths_of (storyIndex ex_store) = [(''./A.stories'', ''s2''), (''./A.mdx'', ''d1'')]"
    by (simp add: ex_store_fields ex_importPaths)
  show ?thesis
    using d calls paths ok ex_loadAll keys len mem record_of by (intro conjI)
qed

subsection \<open>The snapshot of a story\<close>

lemma js_sort_mset: "mset (js_sort ext xs) = mset xs"
  by (simp add: js_sort_def)

lemma js_sort_defined:
  "filter (\<lambda>v. v \<noteq> JUndefined) (js_sort ext xs)
     = sort_key (ToString ext) (filter (\<lambda>v. v \<noteq> JUndefined) xs)"
proof -
  have "filter (\<lambda>v. v \<noteq> JUndefined) (sort_key (ToString ext) (filter (\<lambda>v. v \<noteq> JUndefined) xs))
      = sort_key (ToString ext) (filter (\<lambda>v. v \<noteq> JUndefined) xs)"
    by (rule filter_True) simp
  then show ?thesis
    by (simp add: js_sort_def)
qed

lemma js_sort_sorted:
  "sorted (map (ToString ext) (filter (\<lambda>v. v \<noteq> JUndefined) (js_sort ext xs)))"
  by (simp add: js_sort_defined)

lemma js_sort_undefined_last:
  "js_sort ext xs = filter (\<lambda>v. v \<noteq> JUndefined) (js_sort ext xs) @ filter (\<lambda>v. v = JUndefined) xs"
  by (simp add: js_sort_defined) (simp add: js_sort_def)

lemma extract_fields_no_function:
  "\<forall>(k, v) \<in> set storyAcc. \<not> is_function v \<Longrightarrow>
     \<forall>(k, v) \<in> set (extract_fields ext es storyAcc). \<not> is_function v"
proof (induction es arbitrary: storyAcc)
  case Nil
  then show ?case by simp
next
  case (Cons x es)
  obtain key v where x: "x = (key, v)" by (cases x)
  have upd: "\<forall>(k, v) \<in> set (AList.update key w storyAcc). \<not> is_function v"
    if "\<not> is_function w" for w
    using Cons.prems that set_update_subset [of key w storyAcc] by auto
  show ?case
    unfolding x using Cons.prems
    by (cases v) (auto intro!: Cons.IH upd simp del: split_paired_All)
qed

lemma extract_fields_arrays:
  assumes "(k, JArr ys) \<in> set (extract_fields ext es storyAcc)"
  shows "(k, JArr ys) \<in> set storyAcc \<or> (\<exists>xs. (k, JArr xs) \<in> set es \<and> ys = js_sort ext xs)"
  using assms
proof (induction es arbitrary: storyAcc)
  case Nil
  then show ?case by simp
next
  case (Cons x es)
  obtain key v where x: "x = (key, v)" by (cases x)
  have step: "(k, JArr ys) \<in> set storyAcc \<or> (k, JArr ys) = (key, w)"
    if "(k, JArr ys) \<in> set (AList.update key w storyAcc)" for w
    using that set_update_subset [of key w storyAcc] by auto
  show ?case
  proof (cases "key = ''moduleExport'' \<or> is_function v")
    case True
    then have "extract_fields ext (x # es) storyAcc = extract_fields ext es storyAcc"
      by (auto simp: x)
    then have "(k, JArr ys) \<in> set (extract_fields ext es storyAcc)"
      using Cons.prems by simp
    from Cons.IH [OF this] show ?thesis by auto
  next
    case False
    show ?thesis
    proof (cases v)
      case (JArr xs)
      then have "(k, JArr ys) \<in> set (extract_fields ext es (AList.update key (JArr (js_sort ext xs)) storyAcc))"
        using Cons.prems False by (simp add: x)
      from Cons.IH [OF this] step [of "JArr (js_sort ext xs)"] show ?thesis
        by (auto simp: x JArr)
    qed (use Cons.IH [of "AList.update key v storyAcc"] Cons.prems False step [of v] in \<open>auto simp: x\<close>)
  qed
qed

lemma extract_fields_other_key:
  "k \<notin> fst ` set es \<Longrightarrow> map_of (extract_fields ext es storyAcc) k = map_of storyAcc k"
proof (induction es arbitrary: storyAcc)
  case Nil
  then show ?case by simp
next
  case (Cons x es)
  obtain key v where x: "x = (key, v)" by (cases x)
  have k: "k \<noteq> key" "k \<notin> fst ` set es" using Cons.prems by (auto simp: x)
  show ?case
    unfolding x using k Cons.IH [OF k(2)]
    by (cases v) (simp_all add: AList.update_conv')
qed

lemma extract_fields_array_kept:
  assumes "distinct (map fst es)" and "(k, JArr xs) \<in> set es" and "k \<noteq> ''moduleExport''"
  shows "map_of (extract_fields ext es storyAcc) k = Some (JArr (js_sort ext xs))"
  using assms
proof (induction es arbitrary: storyAcc)
  case Nil
  then show ?case by simp
next
  case (Cons x es)
  obtain key v where x: "x = (key, v)" by (cases x)
  show ?case
  proof (cases "(k, JArr xs) = x")
    case True
    then have kv: "key = k" "v = JArr xs" by (simp_all add: x)
    have "k \<notin> fst ` set es" using Cons.prems(1) by (auto simp: x kv)
    then show ?thesis
      using Cons.prems(3) by (simp add: x kv extract_fields_other_key AList.update_conv')
  next
    case False
    then have "(k, JArr xs) \<in> set es" using Cons.prems(2) by auto
    then have "map_of (extract_fields ext es acc') k = Some (JArr (js_sort ext xs))" for acc'
      using Cons.IH Cons.prems by simp
    then show ?thesis
      unfolding x by (cases v) simp_all
  qed
qed

lemma extract_story_args:
  "''args'' \<notin> fst ` set (otherFields st) \<Longrightarrow>
     map_of (extract_story ext st) ''args'' = Some (JObj (initialArgs st))"
  by (simp add: extract_story_def story_entries_def extract_fields_other_key)

subsection \<open>The snapshot of the index\<close>

lemma extract_entries_docs:
  "type entry = docs \<Longrightarrow>
     extract_entries ext files options ((storyId, entry) # rest) s acc
       = extract_entries ext files options rest s acc"
  by simp

lemma extract_entries_no_file:
  "type entry \<noteq> docs \<Longrightarrow> map_of files (importPath entry) = None \<Longrightarrow>
     extract_entries ext files options ((storyId, entry) # rest) s acc = (Inl TypeError, s)"
  by simp

lemma extract_entries_no_story:
  "type entry \<noteq> docs \<Longrightarrow> map_of files (importPath entry) = Some csfFile \<Longrightarrow>
   map_of (stories csfFile) storyId = None \<Longrightarrow>
     extract_entries ext files options ((storyId, entry) # rest) s acc
       = (Inl (MissingStoryFromCsfFileError storyId), s)"
  by (simp add: storyFromCSFFile_None)

lemma extract_entries_story:
  "type entry \<noteq> docs \<Longrightarrow> map_of files (importPath entry) = Some csfFile \<Longrightarrow>
   storyFromCSFFile ext s storyId csfFile = (Inr st, s1) \<Longrightarrow>
     extract_entries ext files options ((storyId, entry) # rest) s acc
       = extract_entries ext files options rest s1
           (if includeDocsOnly options \<noteq> Some True \<and> truthy (get_prop (parameters st) ''docsOnly'')
            then acc else AList.update storyId (extract_story ext st) acc)"
  by simp

lemma storyFromCSFFile_cases:
  obtains (missing) "map_of (stories csfFile) storyId = None"
  | (resolved) st s1 where "storyFromCSFFile ext s storyId csfFile = (Inr st, s1)"
      and "map_of (stories csfFile) storyId \<noteq> None"
      and "projectAnnotations s1 = projectAnnotations s"
proof (cases "map_of (stories csfFile) storyId")
  case None
  then show ?thesis by (rule missing)
next
  case (Some sa)
  obtain st s1 where r: "storyFromCSFFile ext s storyId csfFile = (Inr st, s1)"
    using storyFromCSFFile_Some [OF Some, of ext s] by blast
  have "projectAnnotations (snd (storyFromCSFFile ext s storyId csfFile)) = projectAnnotations s"
    by (rule storyFromCSFFile_frame)
  then show ?thesis
    using resolved [OF r] Some r by simp
qed

lemma extract_entries_records:
  assumes "extract_entries ext files options entries s acc = (Inr res, s')"
    and "(storyId, snapshot) \<in> set res"
  shows "(storyId, snapshot) \<in> set acc \<or>
     (\<exists>entry csfFile st sa sb.
         (storyId, entry) \<in> set entries \<and> type entry \<noteq> docs
       \<and> map_of files (importPath entry) = Some csfFile
       \<and> projectAnnotations sa = projectAnnotations s
       \<and> storyFromCSFFile ext sa storyId csfFile = (Inr st, sb)
       \<and> snapshot = extract_story ext st
       \<and> (truthy (get_prop (parameters st) ''docsOnly'') \<longrightarrow> includeDocsOnly options = Some True))"
  using assms
proof (induction entries arbitrary: s acc)
  case Nil
  then show ?case by simp
next
  case (Cons x entries)
  obtain sid entry where x: "x = (sid, entry)" by (cases x)
  have lift: ?case
    if "(storyId, entry') \<in> set (x # entries)" "type entry' \<noteq> docs"
      "map_of files (importPath entry') = Some csfFile'"
      "projectAnnotations sa = projectAnnotations s"
      "storyFromCSFFile ext sa storyId csfFile' = (Inr st', sb)"
      "snapshot = extract_story ext st'"
      "truthy (get_prop (parameters st') ''docsOnly'') \<longrightarrow> includeDocsOnly options = Some True"
    for entry' csfFile' st' sa sb
    by (rule disjI2, intro exI [of _ entry'] exI [of _ csfFile'] exI [of _ st'] exI [of _ sa]
        exI [of _ sb] conjI) (fact that)+
  show ?case
  proof (cases "type entry = docs")
    case True
    from Cons.prems(1) have "extract_entries ext files options entries s acc = (Inr res, s')"
      by (simp add: x True)
    from Cons.IH [OF this Cons.prems(2)]
    consider (old) "(storyId, snapshot) \<in> set acc"
      | (later) entry' csfFile' st' sa sb where
          "(storyId, entry') \<in> set entries" "type entry' \<noteq> docs"
          "map_of files (importPath entry') = Some csfFile'"
          "projectAnnotations sa = projectAnnotations s"
          "storyFromCSFFile ext sa storyId csfFile' = (Inr st', sb)"
          "snapshot = extract_story ext st'"
          "truthy (get_prop (parameters st') ''docsOnly'') \<longrightarrow> includeDocsOnly options = Some True"
      by blast
    then show ?thesis
    proof cases
      case old
      then show ?thesis by (rule disjI1)
    next
      case later
      have "(storyId, entry') \<in> set (x # entries)" using later(1) by simp
      then show ?thesis using later(2-7) by (rule lift)
    qed
  next
    case False
    show ?thesis
    proof (cases "map_of files (importPath entry)")
      case None
      then show ?thesis using Cons.prems(1) False by (simp add: x)
    next
      case (Some csfFile)
      show ?thesis
      proof (cases rule: storyFromCSFFile_cases [where csfFile = csfFile and storyId = sid and ext = ext and s = s])
        case missing
        then show ?thesis
          using Cons.prems(1) extract_entries_no_story [OF False Some missing] by (simp add: x)
      next
        case (resolved st s1)
        let ?skip = "includeDocsOnly options \<noteq> Some True \<and> truthy (get_prop (parameters st) ''docsOnly'')"
        let ?acc = "if ?skip then acc else AList.update sid (extract_story ext st) acc"
        have "extract_entries ext files options entries s1 ?acc = (Inr res, s')"
          using Cons.prems(1) unfolding x extract_entries_story [OF False Some resolved(1)] .
        from Cons.IH [OF this Cons.prems(2)]
        consider (old) "(storyId, snapshot) \<in> set ?acc"
          | (later) entry' csfFile' st' sa sb where
              "(storyId, entry') \<in> set entries" "type entry' \<noteq> docs"
              "map_of files (importPath entry') = Some csfFile'"
              "projectAnnotations sa = projectAnnotations s1"
              "storyFromCSFFile ext sa storyId csfFile' = (Inr st', sb)"
              "snapshot = extract_story ext st'"
              "truthy (get_prop (parameters st') ''docsOnly'') \<longrightarrow> includeDocsOnly options = Some True"
          by blast
        then show ?thesis
        proof cases
          case old
          then have "(storyId, snapshot) \<in> set acc
              \<or> (\<not> ?skip \<and> (storyId, snapshot) = (sid, extract_story ext st))"
            using set_update_subset [of sid "extract_story ext st" acc]
            by (auto split: if_splits)
          then show ?thesis
          proof
            assume "(storyId, snapshot) \<in> set acc"
            then show ?thesis by (rule disjI1)
          next
            assume new: "\<not> ?skip \<and> (storyId, snapshot) = (sid, extract_story ext st)"
            have 1: "(storyId, entry) \<in> set (x # entries)" using new by (simp add: x)
            have 2: "storyFromCSFFile ext s storyId csfFile = (Inr st, s1)"
              using resolved(1) new by simp
            have 3: "snapshot = extract_story ext st" using new by simp
            have 4: "truthy (get_prop (parameters st) ''docsOnly'')
                \<longrightarrow> includeDocsOnly options = Some True"
              using new by auto
            show ?thesis
              by (rule lift [OF 1 False Some refl 2 3 4])
          qed
        next
          case later
          have 1: "(storyId, entry') \<in> set (x # entries)" using later(1) by simp
          have 2: "projectAnnotations sa = projectAnnotations s"
            using later(4) resolved(3) by simp
          show ?thesis
            by (rule lift [OF 1 later(2,3) 2 later(5,6,7)])
        qed
      qed
    qed
  qed
qed

lemma js_sort_stable:
  "filter (\<lambda>v. v \<noteq> JUndefined \<and> ToString ext v = key) (js_sort ext xs)
     = filter (\<lambda>v. v \<noteq> JUndefined \<and> ToString ext v = key) xs"
proof -
  let ?d = "filter (\<lambda>v. v \<noteq> JUndefined) xs"
  have "filter (\<lambda>v. v \<noteq> JUndefined \<and> ToString ext v = key) (js_sort ext xs)
      = filter (\<lambda>v. ToString ext v = key) (filter (\<lambda>v. v \<noteq> JUndefined) (js_sort ext xs))"
    by (simp add: conj_commute)
  also have "\<dots> = filter (\<lambda>v. ToString ext v = key) (sort_key (ToString ext) ?d)"
    by (simp only: js_sort_defined)
  also have "\<dots> = filter (\<lambda>v. ToString ext v = key) ?d"
    by (rule sort_key_stable)
  also have "\<dots> = filter (\<lambda>v. v \<noteq> JUndefined \<and> ToString ext v = key) xs"
    by (simp add: conj_commute)
  finally show ?thesis .
qed

lemma extract_story_arrays:
  assumes "(k, JArr ys) \<in> set (extract_story ext st)"
  shows "\<exists>xs. (k, JArr xs) \<in> set (story_entries st) \<and> ys = js_sort ext xs"
  using extract_fields_arrays [OF assms [unfolded extract_story_def]] by simp

lemma extract_story_no_function: "(k, v) \<in> set (extract_story ext st) \<Longrightarrow> \<not> is_function v"
  using extract_fields_no_function [of "[(''args'', JObj (initialArgs st))]" ext "story_entries st"]
  by (auto simp: extract_story_def)

lemma update_fold_set:
  "(k, w) \<in> set (fold (\<lambda>(sid, x) a. AList.update sid (f x) a) xs acc) \<Longrightarrow>
     (k, w) \<in> set acc \<or> (\<exists>x. (k, x) \<in> set xs \<and> w = f x)"
proof (induction xs arbitrary: acc)
  case Nil
  then show ?case by simp
next
  case (Cons y xs)
  obtain sid x where y: "y = (sid, x)" by (cases y)
  from Cons.prems have "(k, w) \<in> set (fold (\<lambda>(sid, x) a. AList.update sid (f x) a) xs
      (AList.update sid (f x) acc))"
    by (simp add: y)
  from Cons.IH [OF this] show ?case
    using set_update_subset [of sid "f x" acc] by (auto simp: y)
qed

lemma update_fold_other:
  "k \<notin> fst ` set xs \<Longrightarrow>
     map_of (fold (\<lambda>(sid, x) a. AList.update sid (f x) a) xs acc) k = map_of acc k"
proof (induction xs arbitrary: acc)
  case Nil
  then show ?case by simp
next
  case (Cons y xs)
  obtain sid x where y: "y = (sid, x)" by (cases y)
  have k: "k \<noteq> sid" "k \<notin> fst ` set xs" using Cons.prems by (auto simp: y)
  show ?case
    using k(1) by (simp add: y Cons.IH [OF k(2)] AList.update_conv')
qed

lemma update_fold_distinct:
  "distinct (map fst xs) \<Longrightarrow> (k, x) \<in> set xs \<Longrightarrow>
     map_of (fold (\<lambda>(sid, x) a. AList.update sid (f x) a) xs acc) k = Some (f x)"
proof (induction xs arbitrary: acc)
  case Nil
  then show ?case by simp
next
  case (Cons y xs)
  obtain sid z where y: "y = (sid, z)" by (cases y)
  show ?case
  proof (cases "(k, x) = y")
    case True
    then have kv: "sid = k" "z = x" by (simp_all add: y)
    have "k \<notin> fst ` set xs" using Cons.prems(1) by (auto simp: y kv)
    then show ?thesis
      by (simp add: y kv update_fold_other AList.update_conv')
  next
    case False
    then have "(k, x) \<in> set xs" using Cons.prems(2) by auto
    moreover have "distinct (map fst xs)" using Cons.prems(1) by simp
    ultimately show ?thesis
      by (simp add: y Cons.IH)
  qed
qed

lemma resolved_stories_docs:
  "type entry = docs \<Longrightarrow>
     resolved_stories ext files ((storyId, entry) # rest) s = resolved_stories ext files rest s"
  by simp

lemma resolved_stories_story:
  "type entry \<noteq> docs \<Longrightarrow> map_of files (importPath entry) = Some csfFile \<Longrightarrow>
   storyFromCSFFile ext s storyId csfFile = (Inr st, s1) \<Longrightarrow>
     resolved_stories ext files ((storyId, entry) # rest) s
       = (storyId, st) # resolved_stories ext files rest s1"
  by simp

lemma extract_entries_resolved:
  assumes "extract_entries ext files options entries s acc = (Inr res, s')"
  shows "res = fold (\<lambda>(storyId, story') acc. AList.update storyId (extract_story ext story') acc)
            (filter (\<lambda>(storyId, story'). includeDocsOnly options = Some True
                        \<or> \<not> truthy (get_prop (parameters story') ''docsOnly''))
               (resolved_stories ext files entries s)) acc
       \<and> map fst (resolved_stories ext files entries s)
           = map fst (filter (\<lambda>(storyId, entry). type entry \<noteq> docs) entries)"
  using assms
proof (induction entries arbitrary: s acc)
  case Nil
  then show ?case by simp
next
  case (Cons x entries)
  obtain sid entry where x: "x = (sid, entry)" by (cases x)
  show ?case
  proof (cases "type entry = docs")
    case True
    from Cons.prems have "extract_entries ext files options entries s acc = (Inr res, s')"
      by (simp add: x True)
    from Cons.IH [OF this] show ?thesis
      unfolding x resolved_stories_docs [OF True] using True by simp
  next
    case False
    show ?thesis
    proof (cases "map_of files (importPath entry)")
      case None
      then show ?thesis using Cons.prems False by (simp add: x)
    next
      case (Some csfFile)
      show ?thesis
      proof (cases rule: storyFromCSFFile_cases [where csfFile = csfFile and storyId = sid
            and ext = ext and s = s])
        case missing
        then show ?thesis
          using Cons.prems extract_entries_no_story [OF False Some missing] by (simp add: x)
      next
        case (resolved st s1)
        let ?skip = "includeDocsOnly options \<noteq> Some True \<and> truthy (get_prop (parameters st) ''docsOnly'')"
        let ?acc = "if ?skip then acc else AList.update sid (extract_story ext st) acc"
        have "extract_entries ext files options entries s1 ?acc = (Inr res, s')"
          using Cons.prems unfolding x extract_entries_story [OF False Some resolved(1)] .
        from Cons.IH [OF this] show ?thesis
          unfolding x resolved_stories_story [OF False Some resolved(1)] using False
          by (cases ?skip) auto
      qed
    qed
  qed
qed

lemma distinct_filter_keys: "distinct (map fst xs) \<Longrightarrow> distinct (map fst (filter P xs))"
  by (induction xs) auto

lemma extract_resolved:
  assumes files: "cachedCSFFiles s = Some files"
    and run: "extract' ext s options = (Inr res, s1)"
  shows "map fst (resolved_stories ext files (storyIndex s) s)
           = map fst (filter (\<lambda>(storyId, entry). type entry \<noteq> docs) (storyIndex s))"
    and "res = fold (\<lambda>(storyId, story') acc. AList.update storyId (extract_story ext story') acc)
            (filter (\<lambda>(storyId, story'). includeDocsOnly options = Some True
                        \<or> \<not> truthy (get_prop (parameters story') ''docsOnly''))
               (resolved_stories ext files (storyIndex s) s)) []"
    and "\<forall>storyId snapshot. (storyId, snapshot) \<in> set res \<longrightarrow>
           (\<exists>story'. (storyId, story') \<in> set (resolved_stories ext files (storyIndex s) s)
              \<and> snapshot = extract_story ext story'
              \<and> (truthy (get_prop (parameters story') ''docsOnly'') \<longrightarrow>
                   includeDocsOnly options = Some True))"
    and "\<forall>storyId story'. distinct (map fst (storyIndex s)) \<longrightarrow>
           (storyId, story') \<in> set (resolved_stories ext files (storyIndex s) s) \<longrightarrow>
           (if includeDocsOnly options = Some True
                 \<or> \<not> truthy (get_prop (parameters story') ''docsOnly'')
            then map_of res storyId = Some (extract_story ext story')
            else storyId \<notin> fst ` set res)"
proof -
  let ?rs = "resolved_stories ext files (storyIndex s) s"
  let ?keep = "\<lambda>(storyId, story'). includeDocsOnly options = Some True
                        \<or> \<not> truthy (get_prop (parameters story') ''docsOnly'')"
  have "extract_entries ext files options (storyIndex s) s [] = (Inr res, s1)"
    using run by (simp add: extract'_def files)
  note R = extract_entries_resolved [OF this]
  show keys: "map fst ?rs = map fst (filter (\<lambda>(storyId, entry). type entry \<noteq> docs) (storyIndex s))"
    using R by simp
  show res: "res = fold (\<lambda>(storyId, story') acc. AList.update storyId (extract_story ext story') acc)
      (filter ?keep ?rs) []"
    using R by simp
  have mem: "\<exists>story'. (storyId, story') \<in> set (filter ?keep ?rs) \<and> snapshot = extract_story ext story'"
    if "(storyId, snapshot) \<in> set res" for storyId snapshot
    using update_fold_set [OF that [unfolded res]] by simp
  show "\<forall>storyId snapshot. (storyId, snapshot) \<in> set res \<longrightarrow>
      (\<exists>story'. (storyId, story') \<in> set ?rs \<and> snapshot = extract_story ext story'
         \<and> (truthy (get_prop (parameters story') ''docsOnly'') \<longrightarrow>
              includeDocsOnly options = Some True))"
  proof (intro allI impI)
    fix storyId snapshot
    assume "(storyId, snapshot) \<in> set res"
    from mem [OF this] show "\<exists>story'. (storyId, story') \<in> set ?rs
        \<and> snapshot = extract_story ext story'
        \<and> (truthy (get_prop (parameters story') ''docsOnly'') \<longrightarrow>
             includeDocsOnly options = Some True)"
      by auto
  qed
  show "\<forall>storyId story'. distinct (map fst (storyIndex s)) \<longrightarrow> (storyId, story') \<in> set ?rs \<longrightarrow>
      (if includeDocsOnly options = Some True
            \<or> \<not> truthy (get_prop (parameters story') ''docsOnly'')
       then map_of res storyId = Some (extract_story ext story')
       else storyId \<notin> fst ` set res)"
  proof (intro allI impI)
    fix storyId story'
    assume d: "distinct (map fst (storyIndex s))" and m: "(storyId, story') \<in> set ?rs"
    have drs: "distinct (map fst ?rs)"
      unfolding keys using d by (rule distinct_filter_keys)
    then have dk: "distinct (map fst (filter ?keep ?rs))"
      by (rule distinct_filter_keys)
    show "if includeDocsOnly options = Some True
            \<or> \<not> truthy (get_prop (parameters story') ''docsOnly'')
       then map_of res storyId = Some (extract_story ext story')
       else storyId \<notin> fst ` set res"
    proof (cases "includeDocsOnly options = Some True
            \<or> \<not> truthy (get_prop (parameters story') ''docsOnly'')")
      case True
      then have "(storyId, story') \<in> set (filter ?keep ?rs)"
        using m by simp
      from update_fold_distinct [OF dk this] True show ?thesis
        unfolding res by simp
    next
      case False
      have "storyId \<notin> fst ` set res"
      proof
        assume "storyId \<in> fst ` set res"
        then obtain snapshot where "(storyId, snapshot) \<in> set res" by auto
        from mem [OF this] obtain st2 where st2: "(storyId, st2) \<in> set ?rs"
          and k: "includeDocsOnly options = Some True
              \<or> \<not> truthy (get_prop (parameters st2) ''docsOnly'')"
          by auto
        have "st2 = story'"
          using drs st2 m by (meson eq_key_imp_eq_value)
        then show False using k False by simp
      qed
      then show ?thesis using False by simp
    qed
  qed
qed

text \<open>
  C8. The record that \<open>extract\<close> makes of a resolved story has no field that is a
  function; each of its fields that is an array is the sorted copy of the field of the
  story with the same name (and, the story being an object, each array field of the story
  other than \<open>moduleExport\<close> is there, sorted); the sorted copy has the elements of the
  original, ordered by their string conversion, \<open>undefined\<close> last, equal elements in their
  original order; its field \<open>args\<close> is the initial arguments of the story (a resolved story
  has no property \<open>args\<close> of its own). On a store with a materialized map, when \<open>extract\<close>
  succeeds, the stories that it has resolved are those of the non-docs entries of the
  index, in the order of the index, and the mapping that it returns is built from them in
  that order: a story whose parameters mark it documentation-only is passed over unless
  \<open>includeDocsOnly\<close> is true, every other story is recorded under its identifier. So each
  record of the mapping is the record of a resolved story that is not documentation-only,
  or of any resolved story when \<open>includeDocsOnly\<close> is true; and, the identifiers of the
  index being distinct, each resolved story that is kept has its record in the mapping
  and a story that is passed over has none.
\<close>

theorem extract_snapshot:
  "(\<forall>k v. (k, v) \<in> set (extract_story ext st) \<longrightarrow> \<not> is_function v)
   \<and> (\<forall>k ys. (k, JArr ys) \<in> set (extract_story ext st) \<longrightarrow>
         (\<exists>xs. (k, JArr xs) \<in> set (story_entries st) \<and> ys = js_sort ext xs))
   \<and> (\<forall>k xs. distinct (map fst (story_entries st)) \<longrightarrow> (k, JArr xs) \<in> set (story_entries st) \<longrightarrow>
         k \<noteq> ''moduleExport'' \<longrightarrow>
         map_of (extract_story ext st) k = Some (JArr (js_sort ext xs)))
   \<and> mset (js_sort ext xs0) = mset xs0
   \<and> sorted (map (ToString ext) (filter (\<lambda>v. v \<noteq> JUndefined) (js_sort ext xs0)))
   \<and> js_sort ext xs0
        = filter (\<lambda>v. v \<noteq> JUndefined) (js_sort ext xs0) @ filter (\<lambda>v. v = JUndefined) xs0
   \<and> (\<forall>key. filter (\<lambda>v. v \<noteq> JUndefined \<and> ToString ext v = key) (js_sort ext xs0)
               = filter (\<lambda>v. v \<noteq> JUndefined \<and> ToString ext v = key) xs0)
   \<and> (''args'' \<notin> fst ` set (otherFields st) \<longrightarrow>
         map_of (extract_story ext st) ''args'' = Some (JObj (initialArgs st)))
   \<and> (\<forall>files res s1.
         cachedCSFFiles s = Some files \<longrightarrow> extract' ext s options = (Inr res, s1) \<longrightarrow>
         map fst (resolved_stories ext files (storyIndex s) s)
           = map fst (filter (\<lambda>(storyId, entry). type entry \<noteq> docs) (storyIndex s))
       \<and> res = fold (\<lambda>(storyId, story') acc. AList.update storyId (extract_story ext story') acc)
                 (filter (\<lambda>(storyId, story'). includeDocsOnly options = Some True
                             \<or> \<not> truthy (get_prop (parameters story') ''docsOnly''))
                    (resolved_stories ext files (storyIndex s) s)) []
       \<and> (\<forall>storyId snapshot. (storyId, snapshot) \<in> set res \<longrightarrow>
             (\<exists>story'. (storyId, story') \<in> set (resolved_stories ext files (storyIndex s) s)
                \<and> snapshot = extract_story ext story'
                \<and> (truthy (get_prop (parameters story') ''docsOnly'') \<longrightarrow>
                     includeDocsOnly options = Some True)))
       \<and> (\<forall>storyId story'. distinct (map fst (storyIndex s)) \<longrightarrow>
             (storyId, story') \<in> set (resolved_stories ext files (storyIndex s) s) \<longrightarrow>
             (if includeDocsOnly options = Some True
                   \<or> \<not> truthy (get_prop (parameters story') ''docsOnly'')
              then map_of res storyId = Some (extract_story ext story')
              else storyId \<notin> fst ` set res)))"
proof (intro conjI allI impI)
  show "\<not> is_function v" if "(k, v) \<in> set (extract_story ext st)" for k v
    using that by (rule extract_story_no_function)
  show "\<exists>xs. (k, JArr xs) \<in> set (story_entries st) \<and> ys = js_sort ext xs"
    if "(k, JArr ys) \<in> set (extract_story ext st)" for k ys
    using that by (rule extract_story_arrays)
  show "map_of (extract_story ext st) k = Some (JArr (js_sort ext xs))"
    if "distinct (map fst (story_entries st))" "(k, JArr xs) \<in> set (story_entries st)"
      "k \<noteq> ''moduleExport''" for k xs
    unfolding extract_story_def using that by (rule extract_fields_array_kept)
  show "mset (js_sort ext xs0) = mset xs0"
    by (rule js_sort_mset)
  show "sorted (map (ToString ext) (filter (\<lambda>v. v \<noteq> JUndefined) (js_sort ext xs0)))"
    by (rule js_sort_sorted)
  show "js_sort ext xs0
      = filter (\<lambda>v. v \<noteq> JUndefined) (js_sort ext xs0) @ filter (\<lambda>v. v = JUndefined) xs0"
    by (rule js_sort_undefined_last)
  show "filter (\<lambda>v. v \<noteq> JUndefined \<and> ToString ext v = key) (js_sort ext xs0)
      = filter (\<lambda>v. v \<noteq> JUndefined \<and> ToString ext v = key) xs0" for key
    by (rule js_sort_stable)
  show "map_of (extract_story ext st) ''args'' = Some (JObj (initialArgs st))"
    if "''args'' \<notin> fst ` set (otherFields st)"
    using that by (rule extract_story_args)
next
  fix files res s1
  assume files: "cachedCSFFiles s = Some files" and run: "extract' ext s options = (Inr res, s1)"
  show "map fst (resolved_stories ext files (storyIndex s) s)
      = map fst (filter (\<lambda>(storyId, entry). type entry \<noteq> docs) (storyIndex s))"
    using files run by (rule extract_resolved(1))
  show "res = fold (\<lambda>(storyId, story') acc. AList.update storyId (extract_story ext story') acc)
      (filter (\<lambda>(storyId, story'). includeDocsOnly options = Some True
                  \<or> \<not> truthy (get_prop (parameters story') ''docsOnly''))
         (resolved_stories ext files (storyIndex s) s)) []"
    using files run by (rule extract_resolved(2))
  show "\<exists>story'. (storyId, story') \<in> set (resolved_stories ext files (storyIndex s) s)
      \<and> snapshot = extract_story ext story'
      \<and> (truthy (get_prop (parameters story') ''docsOnly'') \<longrightarrow>
           includeDocsOnly options = Some True)"
    if "(storyId, snapshot) \<in> set res" for storyId snapshot
    using extract_resolved(3) [OF files run, rule_format, OF that] .
  show "if includeDocsOnly options = Some True
          \<or> \<not> truthy (get_prop (parameters story') ''docsOnly'')
     then map_of res storyId = Some (extract_story ext story')
     else storyId \<notin> fst ` set res"
    if "distinct (map fst (storyIndex s))"
      "(storyId, story') \<in> set (resolved_stories ext files (storyIndex s) s)" for storyId story'
    using extract_resolved(4) [OF files run, rule_format, OF that] .
qed

lemma ex_extract_default:
  "fst (extract' ex_ext ex_materialized default_options)
     = Inr [(''s1'', extract_story ex_ext ex_story1)]"
  by (simp add: extract'_def ex_materialized_eq ex_store_def new_StoryStore_def ex_index_def
      ex_files_def default_options_def storyFromCSFFile_def Let_def case_prod_beta
      prepareStoryWithCache_def ex_csf_def ex_sa1_def ex_sa2_def ex_meta_def ex_pa_def ex_ext_def
      ex_prepareStory_def get_prop_def ex_story1_def ensure_hooks_def setInitial_def
      STORY_CACHE_SIZE_def)

lemma ex_extract_all:
  "fst (extract' ex_ext ex_materialized \<lparr>includeDocsOnly = Some True\<rparr>)
     = Inr [(''s1'', extract_story ex_ext ex_story1), (''s2'', extract_story ex_ext ex_story2)]"
  by (simp add: extract'_def ex_materialized_eq ex_store_def new_StoryStore_def ex_index_def
      ex_files_def storyFromCSFFile_def Let_def case_prod_beta
      prepareStoryWithCache_def ex_csf_def ex_sa1_def ex_sa2_def ex_meta_def ex_pa_def ex_ext_def
      ex_prepareStory_def get_prop_def ex_story1_def ex_story2_def ensure_hooks_def setInitial_def
      STORY_CACHE_SIZE_def numeral_2_eq_2)

lemma ex_resolved:
  "resolved_stories ex_ext ex_files (storyIndex ex_materialized) ex_materialized
     = [(''s1'', ex_story1), (''s2'', ex_story2)]"
  by (simp add: ex_materialized_eq ex_store_def new_StoryStore_def ex_index_def
      ex_files_def storyFromCSFFile_def Let_def case_prod_beta
      prepareStoryWithCache_def ex_csf_def ex_sa1_def ex_sa2_def ex_meta_def ex_pa_def ex_ext_def
      ex_prepareStory_def get_prop_def ex_story1_def ex_story2_def ensure_hooks_def setInitial_def
      STORY_CACHE_SIZE_def numeral_2_eq_2)

lemma ex_sorted_tags:
  "js_sort ex_ext [JStr ''b'', JUndefined, JStr ''a''] = [JStr ''a'', JStr ''b'', JUndefined]"
  by (simp add: js_sort_def ex_ext_def ex_ToString_def)

theorem extract_snapshot_witness:
  "''args'' \<notin> fst ` set (otherFields ex_story1)
   \<and> map_of (extract_story ex_ext ex_story1) ''args'' = Some (JObj [(''label'', JStr ''Primary'')])
   \<and> distinct (map fst (story_entries ex_story1))
   \<and> (''tags'', JArr [JStr ''b'', JUndefined, JStr ''a'']) \<in> set (story_entries ex_story1)
   \<and> map_of (extract_story ex_ext ex_story1) ''tags'' = Some (JArr [JStr ''a'', JStr ''b'', JUndefined])
   \<and> cachedCSFFiles ex_materialized = Some ex_files
   \<and> distinct (map fst (storyIndex ex_materialized))
   \<and> resolved_stories ex_ext ex_files (storyIndex ex_materialized) ex_materialized
        = [(''s1'', ex_story1), (''s2'', ex_story2)]
   \<and> \<not> truthy (get_prop (parameters ex_story1) ''docsOnly'')
   \<and> truthy (get_prop (parameters ex_story2) ''docsOnly'')
   \<and> extract' ex_ext ex_materialized default_options
        = (Inr [(''s1'', extract_story ex_ext ex_story1)],
           snd (extract' ex_ext ex_materialized default_options))
   \<and> map_of [(''s1'', extract_story ex_ext ex_story1)] ''s1'' = Some (extract_story ex_ext ex_story1)
   \<and> ''s2'' \<notin> fst ` set [(''s1'', extract_story ex_ext ex_story1)]
   \<and> (\<exists>story'. (''s1'', story') \<in> set [(''s1'', ex_story1), (''s2'', ex_story2)]
          \<and> extract_story ex_ext ex_story1 = extract_story ex_ext story'
          \<and> \<not> truthy (get_prop (parameters story') ''docsOnly''))
   \<and> extract' ex_ext ex_materialized \<lparr>includeDocsOnly = Some True\<rparr>
        = (Inr [(''s1'', extract_story ex_ext ex_story1), (''s2'', extract_story ex_ext ex_story2)],
           snd (extract' ex_ext ex_materialized \<lparr>includeDocsOnly = Some True\<rparr>))
   \<and> map_of [(''s1'', extract_story ex_ext ex_story1), (''s2'', extract_story ex_ext ex_story2)] ''s2''
        = Some (extract_story ex_ext ex_story2)"
proof -
  note T = extract_snapshot [of ex_ext ex_story1 "[JStr ''b'', JUndefined, JStr ''a'']"
      ex_materialized default_options]
  note U = extract_snapshot [of ex_ext ex_story1 "[JStr ''b'', JUndefined, JStr ''a'']"
      ex_materialized "\<lparr>includeDocsOnly = Some True\<rparr>"]
  have no_args: "''args'' \<notin> fst ` set (otherFields ex_story1)"
    by (simp add: ex_story1_def)
  have dist: "distinct (map fst (story_entries ex_story1))"
    by (simp add: story_entries_def ex_story1_def)
  have tags: "(''tags'', JArr [JStr ''b'', JUndefined, JStr ''a'']) \<in> set (story_entries ex_story1)"
    by (simp add: story_entries_def ex_story1_def)
  have cached: "cachedCSFFiles ex_materialized = Some ex_files"
    by (simp add: ex_materialized_eq)
  have d: "distinct (map fst (storyIndex ex_materialized))"
    by (simp add: ex_materialized_eq ex_store_fields ex_index_distinct)
  have p1: "\<not> truthy (get_prop (parameters ex_story1) ''docsOnly'')"
    by (simp add: ex_story1_def get_prop_def)
  have p2: "truthy (get_prop (parameters ex_story2) ''docsOnly'')"
    by (simp add: ex_story2_def get_prop_def)
  have run: "extract' ex_ext ex_materialized default_options
      = (Inr [(''s1'', extract_story ex_ext ex_story1)],
         snd (extract' ex_ext ex_materialized default_options))"
    by (simp add: prod_eq_iff ex_extract_default)
  have run_all: "extract' ex_ext ex_materialized \<lparr>includeDocsOnly = Some True\<rparr>
      = (Inr [(''s1'', extract_story ex_ext ex_story1), (''s2'', extract_story ex_ext ex_story2)],
         snd (extract' ex_ext ex_materialized \<lparr>includeDocsOnly = Some True\<rparr>))"
    by (simp add: prod_eq_iff ex_extract_all)
  have m1: "(''s1'', ex_story1)
      \<in> set (resolved_stories ex_ext ex_files (storyIndex ex_materialized) ex_materialized)"
    and m2: "(''s2'', ex_story2)
      \<in> set (resolved_stories ex_ext ex_files (storyIndex ex_materialized) ex_materialized)"
    by (simp_all add: ex_resolved)
  from T have "''args'' \<notin> fst ` set (otherFields ex_story1) \<longrightarrow>
      map_of (extract_story ex_ext ex_story1) ''args'' = Some (JObj (initialArgs ex_story1))"
    by (elim conjE)
  then have args: "map_of (extract_story ex_ext ex_story1) ''args''
      = Some (JObj [(''label'', JStr ''Primary'')])"
    using no_args by (simp add: ex_story1_fields)
  from T have "\<forall>k xs. distinct (map fst (story_entries ex_story1)) \<longrightarrow>
      (k, JArr xs) \<in> set (story_entries ex_story1) \<longrightarrow> k \<noteq> ''moduleExport'' \<longrightarrow>
      map_of (extract_story ex_ext ex_story1) k = Some (JArr (js_sort ex_ext xs))"
    by (elim conjE)
  from this [rule_format, OF dist tags]
  have sorted_tags: "map_of (extract_story ex_ext ex_story1) ''tags''
      = Some (JArr [JStr ''a'', JStr ''b'', JUndefined])"
    by (simp add: ex_sorted_tags)
  note Td = T [THEN conjunct2, THEN conjunct2, THEN conjunct2, THEN conjunct2, THEN conjunct2,
      THEN conjunct2, THEN conjunct2, THEN conjunct2, rule_format, OF cached run]
  note Ud = U [THEN conjunct2, THEN conjunct2, THEN conjunct2, THEN conjunct2, THEN conjunct2,
      THEN conjunct2, THEN conjunct2, THEN conjunct2, rule_format, OF cached run_all]
  have s1_in: "(''s1'', extract_story ex_ext ex_story1)
      \<in> set [(''s1'', extract_story ex_ext ex_story1)]"
    by simp
  from Td [THEN conjunct2, THEN conjunct2, THEN conjunct1, rule_format, OF s1_in]
  have "\<exists>story'. (''s1'', story') \<in> set [(''s1'', ex_story1), (''s2'', ex_story2)]
      \<and> extract_story ex_ext ex_story1 = extract_story ex_ext story'
      \<and> (truthy (get_prop (parameters story') ''docsOnly'') \<longrightarrow>
           includeDocsOnly default_options = Some True)"
    unfolding ex_resolved .
  then obtain story' where
    "(''s1'', story') \<in> set [(''s1'', ex_story1), (''s2'', ex_story2)]"
    "extract_story ex_ext ex_story1 = extract_story ex_ext story'"
    "truthy (get_prop (parameters story') ''docsOnly'') \<longrightarrow>
       includeDocsOnly default_options = Some True"
    by (elim exE conjE)
  then have from_story: "\<exists>story'. (''s1'', story') \<in> set [(''s1'', ex_story1), (''s2'', ex_story2)]
      \<and> extract_story ex_ext ex_story1 = extract_story ex_ext story'
      \<and> \<not> truthy (get_prop (parameters story') ''docsOnly'')"
    by (intro exI [of _ story'] conjI) (simp_all add: default_options_def)
  from Td [THEN conjunct2, THEN conjunct2, THEN conjunct2, rule_format, OF d m1] p1
  have kept1: "map_of [(''s1'', extract_story ex_ext ex_story1)] ''s1''
      = Some (extract_story ex_ext ex_story1)"
    by simp
  from Td [THEN conjunct2, THEN conjunct2, THEN conjunct2, rule_format, OF d m2] p2
  have dropped2: "''s2'' \<notin> fst ` set [(''s1'', extract_story ex_ext ex_story1)]"
    by (simp add: default_options_def)
  from Ud [THEN conjunct2, THEN conjunct2, THEN conjunct2, rule_format, OF d m2]
  have kept2: "map_of [(''s1'', extract_story ex_ext ex_story1),
        (''s2'', extract_story ex_ext ex_story2)] ''s2''
      = Some (extract_story ex_ext ex_story2)"
    by simp
  show ?thesis
    using no_args args dist tags sorted_tags cached d ex_resolved p1 p2 run kept1 dropped2
      from_story run_all kept2
    by (intro conjI)
qed

subsection \<open>Extraction needs the materialized map\<close>

lemma never_materialized_None: "never_materialized ext s \<Longrightarrow> cachedCSFFiles s = None"
proof (induction rule: never_materialized.induct)
  case (nm_new index imp pa)
  show ?case by (simp add: new_StoryStore_def)
next
  case (nm_setProjectAnnotations s pa)
  then show ?case by (simp add: setProjectAnnotations_def)
next
  case (nm_args s a)
  then show ?case by simp
next
  case (nm_globals s g)
  then show ?case by simp
next
  case (nm_onStoriesChanged s importFn_arg storyIndex_arg s')
  then show ?case by (simp add: onStoriesChanged_def Let_def split: option.splits)
next
  case (nm_cacheAllCSFFiles_failed s' s)
  then show ?case by (simp add: cacheAllCSFFiles_def split: sum.splits)
next
  case (nm_loadStory s' s storyId)
  then show ?case by (simp add: loadStory_def storyFromCSFFile_frame split: sum.splits)
next
  case (nm_storyFromCSFFile s storyId csfFile)
  then show ?case by (simp add: storyFromCSFFile_frame)
next
  case (nm_cleanupStory s st)
  then show ?case by (simp add: cleanupStory_def split: option.splits)
next
  case (nm_extract s options)
  then show ?case by (simp add: extract'_def)
next
  case (nm_fromId s storyId)
  then show ?case by (simp add: fromId_def)
qed

lemma extract_entries_frame:
  "cachedCSFFiles (snd (extract_entries ext files options entries s acc)) = cachedCSFFiles s"
proof (induction entries arbitrary: s acc)
  case Nil
  show ?case by simp
next
  case (Cons x entries)
  obtain sid entry where x: "x = (sid, entry)" by (cases x)
  show ?case
  proof (cases "type entry = docs")
    case True
    then show ?thesis by (simp add: x Cons.IH)
  next
    case False
    show ?thesis
    proof (cases "map_of files (importPath entry)")
      case None
      then show ?thesis using False by (simp add: x)
    next
      case (Some csfFile)
      show ?thesis
      proof (cases rule: storyFromCSFFile_cases [where csfFile = csfFile and storyId = sid
            and ext = ext and s = s])
        case missing
        show ?thesis
          unfolding x extract_entries_no_story [OF False Some missing] by simp
      next
        case (resolved st s1)
        have "cachedCSFFiles s1 = cachedCSFFiles s"
          using storyFromCSFFile_frame(1) [of ext s sid csfFile] resolved(1) by simp
        then show ?thesis
          unfolding x extract_entries_story [OF False Some resolved(1)] Cons.IH .
      qed
    qed
  qed
qed

lemma materialized_Some: "materialized ext s \<Longrightarrow> cachedCSFFiles s \<noteq> None"
proof (induction rule: materialized.induct)
  case (m_cacheAllCSFFiles_succeeded s s' s1)
  then show ?case by (auto simp: cacheAllCSFFiles_def split: sum.splits)
next
  case (m_setProjectAnnotations s pa)
  then show ?case by (simp add: setProjectAnnotations_def)
next
  case (m_args s a)
  then show ?case by simp
next
  case (m_globals s g)
  then show ?case by simp
next
  case (m_importFn s f)
  then show ?case by simp
next
  case (m_storyIndex s entries)
  then show ?case by simp
next
  case (m_onStoriesChanged s s' importFn_arg storyIndex_arg)
  then show ?case
    by (auto simp: onStoriesChanged_def Let_def cacheAllCSFFiles_def split: option.splits sum.splits)
next
  case (m_cacheAllCSFFiles s' s)
  then show ?case by (auto simp: cacheAllCSFFiles_def split: sum.splits)
next
  case (m_loadStory s' s storyId)
  then show ?case by (simp add: loadStory_def storyFromCSFFile_frame split: sum.splits)
next
  case (m_storyFromCSFFile s storyId csfFile)
  then show ?case by (simp add: storyFromCSFFile_frame)
next
  case (m_cleanupStory s st)
  then show ?case by (auto simp: cleanupStory_def split: option.splits)
next
  case (m_extract s options)
  then show ?case by (auto simp: extract'_def extract_entries_frame split: option.splits)
next
  case (m_fromId s storyId)
  then show ?case
    using storyFromCSFFile_frame(1) [of ext s storyId]
    by (auto simp: fromId_def case_prod_beta split: option.splits sum.splits)
qed

lemma extract_entries_ok_iff:
  "(\<exists>res s'. extract_entries ext files options entries s acc = (Inr res, s')) \<longleftrightarrow>
     (\<forall>storyId entry. (storyId, entry) \<in> set entries \<longrightarrow> type entry \<noteq> docs \<longrightarrow>
        (\<exists>csfFile. map_of files (importPath entry) = Some csfFile
           \<and> map_of (stories csfFile) storyId \<noteq> None))"
proof (induction entries arbitrary: s acc)
  case Nil
  show ?case by simp
next
  case (Cons x entries)
  obtain sid entry where x: "x = (sid, entry)" by (cases x)
  show ?case
  proof (cases "type entry = docs")
    case True
    then show ?thesis
      unfolding x extract_entries_docs [OF True] Cons.IH by auto
  next
    case False
    show ?thesis
    proof (cases "map_of files (importPath entry)")
      case None
      then show ?thesis
        unfolding x extract_entries_no_file [OF False None] using False by auto
    next
      case (Some csfFile)
      show ?thesis
      proof (cases rule: storyFromCSFFile_cases [where csfFile = csfFile and storyId = sid
            and ext = ext and s = s])
        case missing
        then show ?thesis
          unfolding x extract_entries_no_story [OF False Some missing] using False Some by auto
      next
        case (resolved st s1)
        show ?thesis
          unfolding x extract_entries_story [OF False Some resolved(1)] Cons.IH
          using False Some resolved(2) by auto
      qed
    qed
  qed
qed

lemma extract_entries_error:
  assumes "extract_entries ext files options entries s acc = (Inl err, s')"
  shows "(err = TypeError \<and> (\<exists>storyId entry. (storyId, entry) \<in> set entries
            \<and> type entry \<noteq> docs \<and> map_of files (importPath entry) = None))
       \<or> (\<exists>storyId entry csfFile. err = MissingStoryFromCsfFileError storyId
            \<and> (storyId, entry) \<in> set entries \<and> type entry \<noteq> docs
            \<and> map_of files (importPath entry) = Some csfFile
            \<and> storyId \<notin> fst ` set (stories csfFile))"
  using assms
proof (induction entries arbitrary: s acc)
  case Nil
  then show ?case by simp
next
  case (Cons x entries)
  obtain sid entry where x: "x = (sid, entry)" by (cases x)
  have later: ?case
    if "extract_entries ext files options entries s0 acc0 = (Inl err, s')" for s0 acc0
  proof -
    from Cons.IH [OF that] show ?thesis
    proof (elim disjE conjE exE)
      fix storyId entry'
      assume "err = TypeError" "(storyId, entry') \<in> set entries" "type entry' \<noteq> docs"
        "map_of files (importPath entry') = None"
      then show ?thesis
        by (intro disjI1 conjI exI [of _ storyId] exI [of _ entry']) simp_all
    next
      fix storyId entry' csfFile'
      assume "err = MissingStoryFromCsfFileError storyId" "(storyId, entry') \<in> set entries"
        "type entry' \<noteq> docs" "map_of files (importPath entry') = Some csfFile'"
        "storyId \<notin> fst ` set (stories csfFile')"
      then show ?thesis
        by (intro disjI2 conjI exI [of _ storyId] exI [of _ entry'] exI [of _ csfFile']) simp_all
    qed
  qed
  show ?case
  proof (cases "type entry = docs")
    case True
    have "extract_entries ext files options entries s acc = (Inl err, s')"
      using Cons.prems by (simp add: x True)
    then show ?thesis by (rule later)
  next
    case False
    show ?thesis
    proof (cases "map_of files (importPath entry)")
      case None
      have "err = TypeError"
        using Cons.prems unfolding x extract_entries_no_file [OF False None] by simp
      moreover have "(sid, entry) \<in> set (x # entries)" by (simp add: x)
      ultimately show ?thesis
        using False None by blast
    next
      case (Some csfFile)
      show ?thesis
      proof (cases rule: storyFromCSFFile_cases [where csfFile = csfFile and storyId = sid
            and ext = ext and s = s])
        case missing
        have "err = MissingStoryFromCsfFileError sid"
          using Cons.prems unfolding x extract_entries_no_story [OF False Some missing] by simp
        moreover have "(sid, entry) \<in> set (x # entries)" by (simp add: x)
        moreover have "sid \<notin> fst ` set (stories csfFile)"
          using missing by (simp add: map_of_eq_None_iff)
        ultimately show ?thesis
          using False Some by blast
      next
        case (resolved st s1)
        have "extract_entries ext files options entries s1
            (if includeDocsOnly options \<noteq> Some True
                  \<and> truthy (get_prop (parameters st) ''docsOnly'')
             then acc else AList.update sid (extract_story ext st) acc) = (Inl err, s')"
          using Cons.prems unfolding x extract_entries_story [OF False Some resolved(1)] .
        then show ?thesis
          by (rule later)
      qed
    qed
  qed
qed

lemma cacheAllCSFFiles_ok:
  assumes "distinct (map fst (storyIndex s))" and "cacheAllCSFFiles ext s s' = (Inr (), s1)"
  shows "\<exists>files. s1 = s'\<lparr>cachedCSFFiles := Some files\<rparr>
     \<and> fst ` set files = importPath ` snd ` set (storyIndex s)"
proof -
  obtain files where ok: "outcome (loadAllCSFFiles ext s) = Inr files"
    using assms(2) by (cases "outcome (loadAllCSFFiles ext s)") (simp_all add: cacheAllCSFFiles_def)
  have "map fst files = importFn_calls s"
    using loadAllCSFFiles_fulfilled [OF assms(1) ok] loadAllCSFFiles_keys [OF assms(1)] by simp
  then have "set (map fst files) = set (importFn_calls s)" by simp
  then have "fst ` set files = importPath ` snd ` set (storyIndex s)"
    by (simp add: importFn_calls_set [OF assms(1)])
  moreover have "s1 = s'\<lparr>cachedCSFFiles := Some files\<rparr>"
    using assms(2) by (simp add: cacheAllCSFFiles_def ok)
  ultimately show ?thesis by blast
qed

lemma extract_with_map:
  assumes cached: "cachedCSFFiles s = Some files"
  shows "fst (extract' ext s options) \<noteq> Inl CalledExtractOnStoreError
     \<and> ((\<exists>res s2. extract' ext s options = (Inr res, s2)) \<longleftrightarrow>
          (\<forall>storyId entry. (storyId, entry) \<in> set (storyIndex s) \<longrightarrow> type entry \<noteq> docs \<longrightarrow>
             (\<exists>csfFile. map_of files (importPath entry) = Some csfFile
                \<and> storyId \<in> fst ` set (stories csfFile))))
     \<and> (\<forall>err s2. extract' ext s options = (Inl err, s2) \<longrightarrow>
           (err = TypeError \<and> (\<exists>storyId entry. (storyId, entry) \<in> set (storyIndex s)
               \<and> type entry \<noteq> docs \<and> map_of files (importPath entry) = None))
         \<or> (\<exists>storyId entry csfFile. err = MissingStoryFromCsfFileError storyId
               \<and> (storyId, entry) \<in> set (storyIndex s) \<and> type entry \<noteq> docs
               \<and> map_of files (importPath entry) = Some csfFile
               \<and> storyId \<notin> fst ` set (stories csfFile)))
     \<and> (\<forall>res s2 storyId entry.
           distinct (map fst (storyIndex s)) \<longrightarrow> extract' ext s options = (Inr res, s2) \<longrightarrow>
           (storyId, entry) \<in> set (storyIndex s) \<longrightarrow> type entry = docs \<longrightarrow>
           storyId \<notin> fst ` set res)"
proof -
  have run: "extract' ext s options = extract_entries ext files options (storyIndex s) s []"
    by (simp add: extract'_def cached)
  have present: "map_of (stories csfFile) storyId \<noteq> None \<longleftrightarrow> storyId \<in> fst ` set (stories csfFile)"
    for csfFile storyId
    by (simp add: map_of_eq_None_iff)
  have ok_iff: "(\<exists>res s2. extract' ext s options = (Inr res, s2)) \<longleftrightarrow>
      (\<forall>storyId entry. (storyId, entry) \<in> set (storyIndex s) \<longrightarrow> type entry \<noteq> docs \<longrightarrow>
         (\<exists>csfFile. map_of files (importPath entry) = Some csfFile
            \<and> storyId \<in> fst ` set (stories csfFile)))"
    unfolding run extract_entries_ok_iff present ..
  have errs: "(err = TypeError \<and> (\<exists>storyId entry. (storyId, entry) \<in> set (storyIndex s)
               \<and> type entry \<noteq> docs \<and> map_of files (importPath entry) = None))
         \<or> (\<exists>storyId entry csfFile. err = MissingStoryFromCsfFileError storyId
               \<and> (storyId, entry) \<in> set (storyIndex s) \<and> type entry \<noteq> docs
               \<and> map_of files (importPath entry) = Some csfFile
               \<and> storyId \<notin> fst ` set (stories csfFile))"
    if "extract' ext s options = (Inl err, s2)" for err s2
    using that unfolding run by (rule extract_entries_error)
  have guard: "fst (extract' ext s options) \<noteq> Inl CalledExtractOnStoreError"
  proof
    assume "fst (extract' ext s options) = Inl CalledExtractOnStoreError"
    then have "extract' ext s options = (Inl CalledExtractOnStoreError, snd (extract' ext s options))"
      by (simp add: prod_eq_iff)
    from errs [OF this] show False by simp
  qed
  have no_docs: "storyId \<notin> fst ` set res"
    if d: "distinct (map fst (storyIndex s))" and r: "extract' ext s options = (Inr res, s2)"
      and e: "(storyId, entry) \<in> set (storyIndex s)" and t: "type entry = docs"
    for res s2 storyId entry
  proof
    assume "storyId \<in> fst ` set res"
    then obtain snapshot where "(storyId, snapshot) \<in> set res" by auto
    from extract_entries_records [OF r [unfolded run] this]
    obtain entry' where "(storyId, entry') \<in> set (storyIndex s)" "type entry' \<noteq> docs"
      by auto
    moreover have "entry' = entry"
      using d e calculation(1) by (meson eq_key_imp_eq_value)
    ultimately show False using t by simp
  qed
  show ?thesis
    using guard ok_iff errs no_docs by (intro conjI allI impI) (assumption | blast)+
qed

lemma extract_after_cacheAll:
  assumes "distinct (map fst (storyIndex s0))" and "storyIndex s' = storyIndex s0"
    and "cacheAllCSFFiles ext s0 s' = (Inr (), s1)"
  shows "\<exists>files.
       cachedCSFFiles s1 = Some files
     \<and> (\<forall>storyId entry. (storyId, entry) \<in> set (storyIndex s1) \<longrightarrow>
           (\<exists>csfFile. map_of files (importPath entry) = Some csfFile))
     \<and> (\<forall>err s2. extract' ext s1 options = (Inl err, s2) \<longrightarrow>
           (\<exists>storyId. err = MissingStoryFromCsfFileError storyId))"
proof -
  obtain files where s1: "s1 = s'\<lparr>cachedCSFFiles := Some files\<rparr>"
    and keys: "fst ` set files = importPath ` snd ` set (storyIndex s0)"
    using cacheAllCSFFiles_ok [OF assms(1,3)] by blast
  have idx: "storyIndex s1 = storyIndex s0" and cached: "cachedCSFFiles s1 = Some files"
    by (simp_all add: s1 assms(2))
  have has_file: "\<exists>csfFile. map_of files (importPath entry) = Some csfFile"
    if "(storyId, entry) \<in> set (storyIndex s1)" for storyId entry
  proof -
    have "importPath entry \<in> fst ` set files"
      unfolding keys using that unfolding idx by force
    then show ?thesis
      by (cases "map_of files (importPath entry)") (auto simp: map_of_eq_None_iff)
  qed
  have errs: "\<exists>storyId. err = MissingStoryFromCsfFileError storyId"
    if "extract' ext s1 options = (Inl err, s2)" for err s2
    using extract_with_map [OF cached, of ext options, THEN conjunct2, THEN conjunct2,
        THEN conjunct1, rule_format, OF that] has_file
    by (metis option.distinct(1))
  show ?thesis
    using cached has_file errs by (intro exI [of _ files] conjI allI impI) (assumption | blast)+
qed

text \<open>
  C1, as amended. \<open>extract\<close> on a store that never had a successful \<open>cacheAllCSFFiles\<close>
  fails with \<open>CalledExtractOnStoreError\<close>. Every store that a run produces after a
  successful \<open>cacheAllCSFFiles\<close> has a materialized map, and on every store with a
  materialized map \<open>extract\<close> never fails with that error: it succeeds exactly when every
  non-docs entry of the index has a file record under its path in the map and its
  identifier is a story of that record; otherwise it fails with a \<open>TypeError\<close> (the path of
  a non-docs entry has no record: the map is stale) or with
  \<open>MissingStoryFromCsfFileError\<close> (the record of a non-docs entry lacks its identifier).
  When it succeeds, whatever the options, no index entry of kind \<open>docs\<close> is a key of the
  returned mapping. When the index is the same at the call of \<open>cacheAllCSFFiles\<close> and at
  its resumption, every path of the index has its record right after the call, and
  \<open>extract\<close> can then fail only with \<open>MissingStoryFromCsfFileError\<close>.
\<close>

theorem extract_requires_materialized:
  "(never_materialized ext s \<longrightarrow> extract' ext s options = (Inl CalledExtractOnStoreError, s))
   \<and> (materialized ext s \<longrightarrow> cachedCSFFiles s \<noteq> None)
   \<and> (\<forall>files. cachedCSFFiles s = Some files \<longrightarrow>
         fst (extract' ext s options) \<noteq> Inl CalledExtractOnStoreError
       \<and> ((\<exists>res s2. extract' ext s options = (Inr res, s2)) \<longleftrightarrow>
            (\<forall>storyId entry. (storyId, entry) \<in> set (storyIndex s) \<longrightarrow> type entry \<noteq> docs \<longrightarrow>
               (\<exists>csfFile. map_of files (importPath entry) = Some csfFile
                  \<and> storyId \<in> fst ` set (stories csfFile))))
       \<and> (\<forall>err s2. extract' ext s options = (Inl err, s2) \<longrightarrow>
             (err = TypeError \<and> (\<exists>storyId entry. (storyId, entry) \<in> set (storyIndex s)
                 \<and> type entry \<noteq> docs \<and> map_of files (importPath entry) = None))
           \<or> (\<exists>storyId entry csfFile. err = MissingStoryFromCsfFileError storyId
                 \<and> (storyId, entry) \<in> set (storyIndex s) \<and> type entry \<noteq> docs
                 \<and> map_of files (importPath entry) = Some csfFile
                 \<and> storyId \<notin> fst ` set (stories csfFile)))
       \<and> (\<forall>res s2 storyId entry.
             distinct (map fst (storyIndex s)) \<longrightarrow> extract' ext s options = (Inr res, s2) \<longrightarrow>
             (storyId, entry) \<in> set (storyIndex s) \<longrightarrow> type entry = docs \<longrightarrow>
             storyId \<notin> fst ` set res))
   \<and> (\<forall>s0 s1. distinct (map fst (storyIndex s0)) \<longrightarrow> storyIndex s = storyIndex s0 \<longrightarrow>
         cacheAllCSFFiles ext s0 s = (Inr (), s1) \<longrightarrow>
         (\<exists>files.
             cachedCSFFiles s1 = Some files
           \<and> (\<forall>storyId entry. (storyId, entry) \<in> set (storyIndex s1) \<longrightarrow>
                 (\<exists>csfFile. map_of files (importPath entry) = Some csfFile))
           \<and> (\<forall>err s2. extract' ext s1 options = (Inl err, s2) \<longrightarrow>
                 (\<exists>storyId. err = MissingStoryFromCsfFileError storyId))))"
proof (intro conjI)
  show "never_materialized ext s \<longrightarrow> extract' ext s options = (Inl CalledExtractOnStoreError, s)"
  proof
    assume "never_materialized ext s"
    from never_materialized_None [OF this] show
      "extract' ext s options = (Inl CalledExtractOnStoreError, s)"
      by (simp add: extract'_def)
  qed
  show "materialized ext s \<longrightarrow> cachedCSFFiles s \<noteq> None"
    using materialized_Some by blast
  show "\<forall>files. cachedCSFFiles s = Some files \<longrightarrow>
         fst (extract' ext s options) \<noteq> Inl CalledExtractOnStoreError
       \<and> ((\<exists>res s2. extract' ext s options = (Inr res, s2)) \<longleftrightarrow>
            (\<forall>storyId entry. (storyId, entry) \<in> set (storyIndex s) \<longrightarrow> type entry \<noteq> docs \<longrightarrow>
               (\<exists>csfFile. map_of files (importPath entry) = Some csfFile
                  \<and> storyId \<in> fst ` set (stories csfFile))))
       \<and> (\<forall>err s2. extract' ext s options = (Inl err, s2) \<longrightarrow>
             (err = TypeError \<and> (\<exists>storyId entry. (storyId, entry) \<in> set (storyIndex s)
                 \<and> type entry \<noteq> docs \<and> map_of files (importPath entry) = None))
           \<or> (\<exists>storyId entry csfFile. err = MissingStoryFromCsfFileError storyId
                 \<and> (storyId, entry) \<in> set (storyIndex s) \<and> type entry \<noteq> docs
                 \<and> map_of files (importPath entry) = Some csfFile
                 \<and> storyId \<notin> fst ` set (stories csfFile)))
       \<and> (\<forall>res s2 storyId entry.
             distinct (map fst (storyIndex s)) \<longrightarrow> extract' ext s options = (Inr res, s2) \<longrightarrow>
             (storyId, entry) \<in> set (storyIndex s) \<longrightarrow> type entry = docs \<longrightarrow>
             storyId \<notin> fst ` set res)"
    by (intro allI impI) (rule extract_with_map)
  show "\<forall>s0 s1. distinct (map fst (storyIndex s0)) \<longrightarrow> storyIndex s = storyIndex s0 \<longrightarrow>
         cacheAllCSFFiles ext s0 s = (Inr (), s1) \<longrightarrow>
         (\<exists>files.
             cachedCSFFiles s1 = Some files
           \<and> (\<forall>storyId entry. (storyId, entry) \<in> set (storyIndex s1) \<longrightarrow>
                 (\<exists>csfFile. map_of files (importPath entry) = Some csfFile))
           \<and> (\<forall>err s2. extract' ext s1 options = (Inl err, s2) \<longrightarrow>
                 (\<exists>storyId. err = MissingStoryFromCsfFileError storyId)))"
    by (intro allI impI) (rule extract_after_cacheAll)
qed

lemma ex_cacheAll: "cacheAllCSFFiles ex_ext ex_store ex_store = (Inr (), ex_materialized)"
  by (simp add: cacheAllCSFFiles_def ex_loadAll ex_materialized_eq)

lemma ex_overlapped_eq:
  "cacheAllCSFFiles ex_ext ex_store (ex_store\<lparr>storyIndex := ex_late_index\<rparr>)
     = (Inr (), ex_overlapped)"
  "cachedCSFFiles ex_overlapped = Some ex_files"
  "storyIndex ex_overlapped = ex_late_index"
  by (simp_all add: ex_overlapped_def cacheAllCSFFiles_def ex_loadAll)

lemma ex_overlapped_extract:
  "extract' ex_ext ex_overlapped default_options = (Inl TypeError, ex_overlapped)"
  by (simp add: extract'_def ex_overlapped_eq ex_late_index_def ex_files_def)

lemma ex_stale_run:
  "fst (cacheAllCSFFiles ex_ext ex_stale ex_stale) = Inr ()"
  "fst (extract' ex_ext (snd (cacheAllCSFFiles ex_ext ex_stale ex_stale)) default_options)
     = Inl (MissingStoryFromCsfFileError ''s3'')"
  by (simp_all add: cacheAllCSFFiles_def loadAllCSFFiles_def csfFilePromiseList_def
      importPaths_of_def ex_stale_def new_StoryStore_def then_promise_def Promise_all_def
      rejections_def fulfilments_def loadCSFFileByStoryId_def storyIdToEntry_def ex_importFn_def
      processCSFFileWithCache_def ex_ext_def ex_processCSFFile_def ex_csf_def extract'_def
      storyFromCSFFile_def)

text \<open>
  C1 as stated fails: with an index that names a story which the loaded module does not
  have, \<open>cacheAllCSFFiles\<close> succeeds and \<open>extract\<close> then fails.
\<close>

theorem extract_after_materialize_counterexample:
  "fst (cacheAllCSFFiles ex_ext ex_stale ex_stale) = Inr ()
   \<and> fst (extract' ex_ext (snd (cacheAllCSFFiles ex_ext ex_stale ex_stale)) default_options)
       = Inl (MissingStoryFromCsfFileError ''s3'')"
  using ex_stale_run by (intro conjI)

theorem extract_requires_materialized_witness:
  "never_materialized ex_ext ex_store
   \<and> extract' ex_ext ex_store default_options = (Inl CalledExtractOnStoreError, ex_store)
   \<and> distinct (map fst (storyIndex ex_store))
   \<and> cacheAllCSFFiles ex_ext ex_store ex_store = (Inr (), ex_materialized)
   \<and> materialized ex_ext ex_materialized
   \<and> cachedCSFFiles ex_materialized = Some ex_files
   \<and> fst (extract' ex_ext ex_materialized default_options) \<noteq> Inl CalledExtractOnStoreError
   \<and> extract' ex_ext ex_materialized default_options
        = (Inr [(''s1'', extract_story ex_ext ex_story1)],
           snd (extract' ex_ext ex_materialized default_options))
   \<and> (''d1'', \<lparr>type = docs, importPath = ''./A.mdx'', title = ''A''\<rparr>) \<in> set (storyIndex ex_materialized)
   \<and> ''d1'' \<notin> fst ` set [(''s1'', extract_story ex_ext ex_story1)]
   \<and> (\<exists>files csfFile. cachedCSFFiles ex_materialized = Some files
          \<and> map_of files ''./A.mdx'' = Some csfFile)
   \<and> materialized ex_ext ex_overlapped
   \<and> cachedCSFFiles ex_overlapped = Some ex_files
   \<and> extract' ex_ext ex_overlapped default_options = (Inl TypeError, ex_overlapped)
   \<and> (\<exists>storyId entry. (storyId, entry) \<in> set (storyIndex ex_overlapped)
          \<and> type entry \<noteq> docs \<and> map_of ex_files (importPath entry) = None)"
proof -
  have nm: "never_materialized ex_ext ex_store"
    unfolding ex_store_def by (rule nm_new)
  have d: "distinct (map fst (storyIndex ex_store))"
    by (simp add: ex_store_fields ex_index_distinct)
  have dm: "distinct (map fst (storyIndex ex_materialized))"
    by (simp add: ex_materialized_eq ex_store_fields ex_index_distinct)
  have m: "materialized ex_ext ex_materialized"
    using ex_cacheAll by (rule m_cacheAllCSFFiles_succeeded)
  have mo: "materialized ex_ext ex_overlapped"
    using ex_overlapped_eq(1) by (rule m_cacheAllCSFFiles_succeeded)
  have cached: "cachedCSFFiles ex_materialized = Some ex_files"
    by (simp add: ex_materialized_eq)
  have run: "extract' ex_ext ex_materialized default_options
      = (Inr [(''s1'', extract_story ex_ext ex_story1)],
         snd (extract' ex_ext ex_materialized default_options))"
    by (simp add: prod_eq_iff ex_extract_default)
  have entry: "(''d1'', \<lparr>type = docs, importPath = ''./A.mdx'', title = ''A''\<rparr>)
      \<in> set (storyIndex ex_materialized)"
    by (simp add: ex_materialized_eq ex_store_fields ex_index_def)
  note T = extract_requires_materialized [of ex_ext ex_store default_options]
  note M = extract_requires_materialized [of ex_ext ex_materialized default_options]
  note L = extract_requires_materialized [of ex_ext ex_overlapped default_options]
  from T have "never_materialized ex_ext ex_store \<longrightarrow>
      extract' ex_ext ex_store default_options = (Inl CalledExtractOnStoreError, ex_store)"
    by (elim conjE)
  from this [rule_format, OF nm]
  have before: "extract' ex_ext ex_store default_options = (Inl CalledExtractOnStoreError, ex_store)" .
  from M have "materialized ex_ext ex_materialized \<longrightarrow> cachedCSFFiles ex_materialized \<noteq> None"
    by (elim conjE)
  from this [rule_format, OF m] have has_map: "cachedCSFFiles ex_materialized \<noteq> None" .
  note Mc = M [THEN conjunct2, THEN conjunct2, THEN conjunct1, rule_format, OF cached]
  from Mc have guard: "fst (extract' ex_ext ex_materialized default_options)
      \<noteq> Inl CalledExtractOnStoreError"
    by (elim conjE)
  from Mc have "\<forall>res s2 storyId entry.
      distinct (map fst (storyIndex ex_materialized)) \<longrightarrow>
      extract' ex_ext ex_materialized default_options = (Inr res, s2) \<longrightarrow>
      (storyId, entry) \<in> set (storyIndex ex_materialized) \<longrightarrow> type entry = docs \<longrightarrow>
      storyId \<notin> fst ` set res"
    by (elim conjE)
  from this [rule_format, OF dm run entry]
  have absent: "''d1'' \<notin> fst ` set [(''s1'', extract_story ex_ext ex_story1)]"
    by simp
  from T [THEN conjunct2, THEN conjunct2, THEN conjunct2, rule_format, OF d refl ex_cacheAll]
  obtain files where files: "cachedCSFFiles ex_materialized = Some files"
    and all: "\<forall>storyId entry. (storyId, entry) \<in> set (storyIndex ex_materialized) \<longrightarrow>
      (\<exists>csfFile. map_of files (importPath entry) = Some csfFile)"
    by (elim exE conjE)
  from all [rule_format, OF entry]
  obtain csfFile where "map_of files ''./A.mdx'' = Some csfFile"
    by (elim exE) simp
  with files have has_record: "\<exists>files csfFile. cachedCSFFiles ex_materialized = Some files
      \<and> map_of files ''./A.mdx'' = Some csfFile"
    by (intro exI [of _ files] exI [of _ csfFile] conjI)
  from L [THEN conjunct2, THEN conjunct2, THEN conjunct1, rule_format, OF ex_overlapped_eq(2)]
  have "\<forall>err s2. extract' ex_ext ex_overlapped default_options = (Inl err, s2) \<longrightarrow>
      (err = TypeError \<and> (\<exists>storyId entry. (storyId, entry) \<in> set (storyIndex ex_overlapped)
          \<and> type entry \<noteq> docs \<and> map_of ex_files (importPath entry) = None))
    \<or> (\<exists>storyId entry csfFile. err = MissingStoryFromCsfFileError storyId
          \<and> (storyId, entry) \<in> set (storyIndex ex_overlapped) \<and> type entry \<noteq> docs
          \<and> map_of ex_files (importPath entry) = Some csfFile
          \<and> storyId \<notin> fst ` set (stories csfFile))"
    by (elim conjE)
  from this [rule_format, OF ex_overlapped_extract]
  have stale: "\<exists>storyId entry. (storyId, entry) \<in> set (storyIndex ex_overlapped)
      \<and> type entry \<noteq> docs \<and> map_of ex_files (importPath entry) = None"
    by simp
  show ?thesis
    using nm before d ex_cacheAll m cached guard run entry absent has_record mo ex_overlapped_eq(2)
      ex_overlapped_extract stale
    by (intro conjI)
qed

subsection \<open>A change of the sources\<close>

lemma loadCSFFileByStoryId_cached:
  "loadCSFFileByStoryId ext (s\<lparr>cachedCSFFiles := c\<rparr>) storyId = loadCSFFileByStoryId ext s storyId"
  by (simp add: loadCSFFileByStoryId_def Let_def split: sum.splits)

lemma loadAllCSFFiles_cached:
  "loadAllCSFFiles ext (s\<lparr>cachedCSFFiles := c\<rparr>) = loadAllCSFFiles ext s"
  by (simp add: loadAllCSFFiles_def csfFilePromiseList_def loadCSFFileByStoryId_cached)

lemma ex_flaky_load: "outcome (loadAllCSFFiles ex_ext ex_flaky) = Inl (LoaderFailure ''early'')"
  unfolding loadAllCSFFiles_def csfFilePromiseList_def ex_flaky_fields ex_importPaths
  by (simp add: then_promise_def Promise_all_def rejections_def loadCSFFileByStoryId_def
      ex_flaky_fields storyIdToEntry_def ex_index_def ex_flaky_importFn_def)

text \<open>
  C3 as stated fails: after a successful \<open>cacheAllCSFFiles\<close>, \<open>onStoriesChanged\<close> with a
  loader that fails is rejected with the failure of the loader.
\<close>

theorem onStoriesChanged_rejected_counterexample:
  "cachedCSFFiles ex_materialized = Some ex_files
   \<and> fst (onStoriesChanged ex_ext ex_materialized (Some ex_flaky_importFn) None ex_flaky)
       = Inl (LoaderFailure ''early'')"
proof -
  have "onStoriesChanged ex_ext ex_materialized (Some ex_flaky_importFn) None ex_flaky
      = (case cachedCSFFiles ex_flaky of
           Some files \<Rightarrow> cacheAllCSFFiles ex_ext ex_flaky ex_flaky
         | None \<Rightarrow> (Inr (), ex_flaky))"
    unfolding ex_flaky_def by (simp add: onStoriesChanged_def Let_def)
  then have "fst (onStoriesChanged ex_ext ex_materialized (Some ex_flaky_importFn) None ex_flaky)
      = Inl (LoaderFailure ''early'')"
    by (simp add: ex_flaky_fields cacheAllCSFFiles_def ex_flaky_load)
  moreover have "cachedCSFFiles ex_materialized = Some ex_files"
    by (simp add: ex_materialized_eq)
  ultimately show ?thesis by (intro conjI)
qed

text \<open>
  C3, as amended. \<open>onStoriesChanged\<close> installs the loader and the index that it is given.
  Without a materialized map it then completes normally. With a materialized map it runs
  the bulk load with the new loader and index: when the load succeeds it completes
  normally and the map is replaced; when the load fails, the failure is passed on to the
  caller, the new loader and index stay installed and the map is the one before the call.
  Here \<open>s2\<close> is the store after the assignments and \<open>s'\<close> the store on which the call
  resumes; when nothing else runs while the call waits, \<open>s'\<close> is \<open>s2\<close>.
\<close>

theorem onStoriesChanged_outcome:
  assumes "s1 = (case importFn_arg of None \<Rightarrow> s | Some f \<Rightarrow> s\<lparr>importFn := f\<rparr>)"
    and "s2 = (case storyIndex_arg of None \<Rightarrow> s1 | Some entries \<Rightarrow> s1\<lparr>storyIndex := entries\<rparr>)"
  shows "(cachedCSFFiles s = None \<longrightarrow>
            onStoriesChanged ext s importFn_arg storyIndex_arg s' = (Inr (), s2))
     \<and> (\<forall>files. cachedCSFFiles s \<noteq> None \<longrightarrow> outcome (loadAllCSFFiles ext s2) = Inr files \<longrightarrow>
            onStoriesChanged ext s importFn_arg storyIndex_arg s'
              = (Inr (), s'\<lparr>cachedCSFFiles := Some files\<rparr>))
     \<and> (\<forall>e. cachedCSFFiles s \<noteq> None \<longrightarrow> outcome (loadAllCSFFiles ext s2) = Inl e \<longrightarrow>
            onStoriesChanged ext s importFn_arg storyIndex_arg s' = (Inl e, s')
            \<and> cachedCSFFiles s2 = cachedCSFFiles s)"
proof -
  have c: "cachedCSFFiles s2 = cachedCSFFiles s"
    unfolding assms by (simp split: option.splits)
  have run: "onStoriesChanged ext s importFn_arg storyIndex_arg s'
      = (case cachedCSFFiles s2 of
           Some files \<Rightarrow> cacheAllCSFFiles ext s2 s'
         | None \<Rightarrow> (Inr (), s2))"
    unfolding assms by (simp add: onStoriesChanged_def Let_def)
  show ?thesis
    unfolding run c by (auto simp: cacheAllCSFFiles_def c)
qed

theorem onStoriesChanged_outcome_witness:
  "cachedCSFFiles ex_store = None
   \<and> onStoriesChanged ex_ext ex_store None None ex_store = (Inr (), ex_store)
   \<and> cachedCSFFiles ex_materialized \<noteq> None
   \<and> outcome (loadAllCSFFiles ex_ext ex_materialized) = Inr ex_files
   \<and> onStoriesChanged ex_ext ex_materialized None None ex_materialized
        = (Inr (), ex_materialized\<lparr>cachedCSFFiles := Some ex_files\<rparr>)
   \<and> outcome (loadAllCSFFiles ex_ext ex_flaky) = Inl (LoaderFailure ''early'')
   \<and> onStoriesChanged ex_ext ex_materialized (Some ex_flaky_importFn) None ex_flaky
        = (Inl (LoaderFailure ''early''), ex_flaky)
   \<and> cachedCSFFiles ex_flaky = Some ex_files"
proof -
  have none: "cachedCSFFiles ex_store = None"
    by (simp add: ex_store_fields)
  have some: "cachedCSFFiles ex_materialized \<noteq> None"
    by (simp add: ex_materialized_eq)
  have load: "outcome (loadAllCSFFiles ex_ext ex_materialized) = Inr ex_files"
    by (simp add: ex_materialized_eq loadAllCSFFiles_cached ex_loadAll)
  have 1: "onStoriesChanged ex_ext ex_store None None ex_store = (Inr (), ex_store)"
    using onStoriesChanged_outcome [OF refl refl, where s = ex_store and importFn_arg = None
        and storyIndex_arg = None and ext = ex_ext and s' = ex_store] none
    by simp
  have 2: "onStoriesChanged ex_ext ex_materialized None None ex_materialized
      = (Inr (), ex_materialized\<lparr>cachedCSFFiles := Some ex_files\<rparr>)"
    using onStoriesChanged_outcome [OF refl refl, where s = ex_materialized
        and importFn_arg = None and storyIndex_arg = None and ext = ex_ext
        and s' = ex_materialized] some load
    by simp
  have 3: "onStoriesChanged ex_ext ex_materialized (Some ex_flaky_importFn) None ex_flaky
      = (Inl (LoaderFailure ''early''), ex_flaky)"
    using onStoriesChanged_outcome [OF refl refl, where s = ex_materialized
        and importFn_arg = "Some ex_flaky_importFn" and storyIndex_arg = None and ext = ex_ext
        and s' = ex_flaky] some ex_flaky_load
    by (simp add: ex_flaky_def [symmetric])
  show ?thesis
    using none 1 some load 2 ex_flaky_load 3 ex_flaky_fields(3) by (intro conjI)
qed

end
